theory Spec2Isabelle
  imports Main
begin

section \<open>Payload types (types.ts)\<close>

text \<open>
  The interfaces of the payload schema.  A JavaScript \<open>number\<close> that holds a height, an
  output index or a value is modelled as an \<open>int\<close>: fractional values and the exponent
  notation of numbers from \<open>1e21\<close> on are outside this model.  The 32-bit range of the
  INTEGER columns is checked by the statements that bind or compute such a number.
  A string is a text that PostgreSQL stores as it is, so one without the character NUL.
  Field names carry a prefix, since \<open>id\<close> and \<open>value\<close> are taken in Isabelle.
\<close>

record Output =
  out_address :: string
  out_value :: int

record Input =
  in_txId :: string
  in_index :: int

record Transaction =
  tx_id :: string
  tx_inputs :: "Input list"
  tx_outputs :: "Output list"

record Block =
  blk_id :: string
  blk_height :: int
  blk_transactions :: "Transaction list"

record BlockValidationResult =
  isValid :: bool
  error :: "string option"
  message :: "string option"

definition valid_result :: BlockValidationResult where
  "valid_result = \<lparr>isValid = True, error = None, message = None\<rparr>"

definition invalid_result :: "string \<Rightarrow> string \<Rightarrow> BlockValidationResult" where
  "invalid_result e m = \<lparr>isValid = False, error = Some e, message = Some m\<rparr>"

section \<open>The persisted store (the tables of database.ts)\<close>

text \<open>
  One record per table row; the \<open>created_at\<close> and \<open>updated_at\<close> timestamps and the serial
  row ids are not modelled.  A table without a primary key that the code selects from by
  a filter is a list of rows in insertion order, and an UPDATE rewrites a row in place.
  \<open>address_balances\<close> is only ever read and written through its primary key, so it is a
  map from the address to the balance.
\<close>

record block_row =
  b_id :: string
  b_height :: int

record transaction_row =
  t_id :: string
  t_block_id :: string

record input_row =
  i_transaction_id :: string
  i_input_tx_id :: string
  i_input_index :: int

record output_row =
  o_transaction_id :: string
  o_address :: string
  o_value :: int
  o_output_index :: int
  o_is_spent :: bool

record store =
  blocks :: "block_row list"
  transactions :: "transaction_row list"
  transaction_inputs :: "input_row list"
  transaction_outputs :: "output_row list"
  address_balances :: "string \<rightharpoonup> int"

definition empty_store :: store where
  "empty_store = \<lparr>blocks = [], transactions = [], transaction_inputs = [],
     transaction_outputs = [], address_balances = Map.empty\<rparr>"

text \<open>The \<open>DatabaseManager\<close> object: the connection pool (the committed store) and the
  in-memory current height.\<close>

record DatabaseManager =
  pool :: store
  currentHeight :: int

definition getCurrentHeight :: "DatabaseManager \<Rightarrow> int" where
  "getCurrentHeight db = currentHeight db"

definition setCurrentHeight :: "DatabaseManager \<Rightarrow> int \<Rightarrow> DatabaseManager" where
  "setCurrentHeight db height = db\<lparr>currentHeight := height\<rparr>"

section \<open>Decimal text of a number\<close>

text \<open>\<open>String(n)\<close> for an integer \<open>n\<close>, as string concatenation and template literals
  produce it.\<close>

fun digits_of_nat :: "nat \<Rightarrow> string" where
  "digits_of_nat n =
     (if n < 10 then [''0123456789'' ! n]
      else digits_of_nat (n div 10) @ [''0123456789'' ! (n mod 10)])"

declare digits_of_nat.simps [simp del]

definition string_of_int :: "int \<Rightarrow> string" where
  "string_of_int i = (if i < 0 then CHR ''-'' # digits_of_nat (nat (- i)) else digits_of_nat (nat i))"

section \<open>Point lookups (database.ts)\<close>

definition output_matches :: "string \<Rightarrow> int \<Rightarrow> output_row \<Rightarrow> bool" where
  "output_matches txId index r = (o_transaction_id r = txId \<and> o_output_index r = index)"

text \<open>An INTEGER of PostgreSQL is a 32-bit signed number.  A statement raises the error
  \<open>numeric value out of range\<close> when a parameter that it binds to an INTEGER column, or
  compares with one, or the result of its INTEGER arithmetic lies outside that range.\<close>

definition in_int4 :: "int \<Rightarrow> bool" where
  "in_int4 x = (- 2147483648 \<le> x \<and> x \<le> 2147483647)"

text \<open>\<open>getInputValue\<close>: \<open>Inl\<close> is the message of the thrown \<open>Error\<close>, the one of the
  database when the index is no INTEGER, and \<open>Input not found\<close> when no row came back.\<close>

definition getInputValue :: "store \<Rightarrow> string \<Rightarrow> int \<Rightarrow> string + int" where
  "getInputValue s txId index =
     (if in_int4 index
      then case filter (output_matches txId index) (transaction_outputs s) of
             [] \<Rightarrow> Inl (''Input not found: '' @ txId @ '':'' @ string_of_int index)
           | r # _ \<Rightarrow> Inr (o_value r)
      else Inl (''value '' @ [CHR 0x22] @ string_of_int index @ [CHR 0x22]
                @ '' is out of range for type integer''))"

definition getAddressBalance :: "store \<Rightarrow> string \<Rightarrow> int" where
  "getAddressBalance s address =
     (case address_balances s address of Some balance \<Rightarrow> balance | None \<Rightarrow> 0)"

section \<open>ValidationService\<close>

text \<open>The SHA-256 hex digest of Node's \<open>crypto\<close> module is a parameter \<open>H\<close> of every
  function that hashes.\<close>

definition calculateBlockId :: "(string \<Rightarrow> string) \<Rightarrow> int \<Rightarrow> string list \<Rightarrow> string" where
  "calculateBlockId H height transactionIds =
     (let combined = string_of_int height @ concat transactionIds in H combined)"

definition validateBlockId :: "(string \<Rightarrow> string) \<Rightarrow> Block \<Rightarrow> bool" where
  "validateBlockId H block =
     (let transactionIds = map tx_id (blk_transactions block);
          expectedId = calculateBlockId H (blk_height block) transactionIds
      in blk_id block = expectedId)"

definition validateHeight :: "int \<Rightarrow> int \<Rightarrow> BlockValidationResult" where
  "validateHeight blockHeight curHeight =
     (if blockHeight \<noteq> curHeight + 1
      then invalid_result ''Invalid height''
             (''Expected height '' @ string_of_int (curHeight + 1) @ '', got '' @ string_of_int blockHeight)
      else valid_result)"

definition validateBlockIdFormat :: "(string \<Rightarrow> string) \<Rightarrow> Block \<Rightarrow> BlockValidationResult" where
  "validateBlockIdFormat H block =
     (if \<not> validateBlockId H block
      then invalid_result ''Invalid block ID'' ''Block ID does not match the expected hash''
      else valid_result)"

text \<open>The inner loop of \<open>validateInputOutputBalance\<close>: \<open>Inl\<close> carries the message of the
  error caught from \<open>getInputValue\<close>.\<close>

fun sumInputValues :: "store \<Rightarrow> Input list \<Rightarrow> int \<Rightarrow> string + int" where
  "sumInputValues s [] inputSum = Inr inputSum"
| "sumInputValues s (i # rest) inputSum =
     (case getInputValue s (in_txId i) (in_index i) of
        Inl msg \<Rightarrow> Inl msg
      | Inr v \<Rightarrow> sumInputValues s rest (inputSum + v))"

definition outputSum :: "Transaction \<Rightarrow> int" where
  "outputSum tx = foldl (\<lambda>sum out. sum + out_value out) 0 (tx_outputs tx)"

fun validateInputOutputBalance :: "store \<Rightarrow> Transaction list \<Rightarrow> BlockValidationResult" where
  "validateInputOutputBalance s [] = valid_result"
| "validateInputOutputBalance s (tx # txs) =
     (if tx_inputs tx = [] then validateInputOutputBalance s txs
      else case sumInputValues s (tx_inputs tx) 0 of
             Inl msg \<Rightarrow> invalid_result ''Invalid input reference'' msg
           | Inr inputSum \<Rightarrow>
               if inputSum \<noteq> outputSum tx
               then invalid_result ''Invalid transaction balance''
                      ''Sum of inputs does not equal sum of outputs''
               else validateInputOutputBalance s txs)"

definition validateBlock :: "(string \<Rightarrow> string) \<Rightarrow> DatabaseManager \<Rightarrow> Block \<Rightarrow> BlockValidationResult" where
  "validateBlock H db block =
     (let curHeight = getCurrentHeight db;
          heightValidation = validateHeight (blk_height block) curHeight
      in if \<not> isValid heightValidation then heightValidation
         else let blockIdValidation = validateBlockIdFormat H block
              in if \<not> isValid blockIdValidation then blockIdValidation
                 else let balanceValidation = validateInputOutputBalance (pool db) (blk_transactions block)
                      in if \<not> isValid balanceValidation then balanceValidation
                         else valid_result)"

text \<open>\<open>validateRollbackHeight\<close>: the target is the result of \<open>parseInt\<close>, an integer or
  \<open>NaN\<close> (\<open>None\<close>).  Every comparison with \<open>NaN\<close> is false, so \<open>NaN\<close> is caught by the
  first test only.\<close>

definition validateRollbackHeight :: "int option \<Rightarrow> int \<Rightarrow> BlockValidationResult" where
  "validateRollbackHeight targetHeight curHeight =
     (case targetHeight of
        None \<Rightarrow> invalid_result ''Invalid height'' ''Height must be a positive integer''
      | Some t \<Rightarrow>
          if t < 1 then invalid_result ''Invalid height'' ''Height must be a positive integer''
          else if t > curHeight
          then invalid_result ''Invalid rollback height''
                 ''Cannot rollback to a height greater than current height''
          else if curHeight - t > 2000
          then invalid_result ''Rollback too far'' ''Cannot rollback more than 2000 blocks''
          else valid_result)"

section \<open>DatabaseManager: applying a block\<close>

text \<open>
  A statement can fail on the primary key of \<open>blocks\<close> and \<open>transactions\<close>, on the
  UNIQUE constraint of \<open>blocks.height\<close>, and on the range of an INTEGER.  The foreign keys
  cannot fail in the statement sequences below: every row is inserted right after the
  row it references, and every row is deleted right after the rows that reference it.
\<close>

datatype db_error = UniqueViolation string | NumericValueOutOfRange

text \<open>A loop over \<open>xs\<close> that awaits one fallible step per element and stops at the first
  error thrown.\<close>

fun for_each :: "('s \<Rightarrow> 'a \<Rightarrow> db_error + 's) \<Rightarrow> 's \<Rightarrow> 'a list \<Rightarrow> db_error + 's" where
  "for_each f c [] = Inr c"
| "for_each f c (x # xs) =
     (case f c x of
        Inl e \<Rightarrow> Inl e
      | Inr c1 \<Rightarrow> for_each f c1 xs)"

definition insert_block :: "store \<Rightarrow> string \<Rightarrow> int \<Rightarrow> db_error + store" where
  "insert_block c bid h =
     (if \<not> in_int4 h then Inl NumericValueOutOfRange
      else if bid \<in> set (map b_id (blocks c)) then Inl (UniqueViolation ''blocks_pkey'')
      else if h \<in> set (map b_height (blocks c)) then Inl (UniqueViolation ''blocks_height_key'')
      else Inr (c\<lparr>blocks := blocks c @ [\<lparr>b_id = bid, b_height = h\<rparr>]\<rparr>))"

definition insert_transaction :: "store \<Rightarrow> string \<Rightarrow> string \<Rightarrow> db_error + store" where
  "insert_transaction c tid bid =
     (if tid \<in> set (map t_id (transactions c)) then Inl (UniqueViolation ''transactions_pkey'')
      else Inr (c\<lparr>transactions := transactions c @ [\<lparr>t_id = tid, t_block_id = bid\<rparr>]\<rparr>))"

text \<open>\<open>INSERT INTO transaction_inputs (transaction_id, input_tx_id, input_index)\<close>.\<close>

definition insert_input :: "string \<Rightarrow> Input \<Rightarrow> store \<Rightarrow> db_error + store" where
  "insert_input txid inp c =
     (if in_int4 (in_index inp)
      then Inr (c\<lparr>transaction_inputs := transaction_inputs c @
                  [\<lparr>i_transaction_id = txid, i_input_tx_id = in_txId inp,
                    i_input_index = in_index inp\<rparr>]\<rparr>)
      else Inl NumericValueOutOfRange)"

text \<open>\<open>INSERT INTO transaction_outputs (transaction_id, address, value, output_index)\<close>,
  with \<open>is_spent\<close> at its default.\<close>

definition insert_output :: "string \<Rightarrow> int \<times> Output \<Rightarrow> store \<Rightarrow> db_error + store" where
  "insert_output txid io c =
     (if in_int4 (out_value (snd io)) \<and> in_int4 (fst io)
      then Inr (c\<lparr>transaction_outputs := transaction_outputs c @
                  [\<lparr>o_transaction_id = txid, o_address = out_address (snd io),
                    o_value = out_value (snd io), o_output_index = fst io,
                    o_is_spent = False\<rparr>]\<rparr>)
      else Inl NumericValueOutOfRange)"

text \<open>\<open>UPDATE transaction_outputs SET is_spent = ... WHERE transaction_id = $1 AND
  output_index = $2\<close>, for an index that is an INTEGER.\<close>

definition set_spent :: "bool \<Rightarrow> string \<Rightarrow> int \<Rightarrow> store \<Rightarrow> store" where
  "set_spent flag txId index c =
     c\<lparr>transaction_outputs :=
         map (\<lambda>r. if output_matches txId index r then r\<lparr>o_is_spent := flag\<rparr> else r)
           (transaction_outputs c)\<rparr>"

text \<open>The two upserts of \<open>processTransaction\<close>, with \<open>p\<close> the statement's second
  parameter: \<open>INSERT INTO address_balances (address, balance) VALUES ($1, $2) ON CONFLICT
  (address) DO UPDATE SET balance = address_balances.balance - $2\<close>, and the same with
  \<open>+ $2\<close>.\<close>

definition upsert_balance_minus :: "string \<Rightarrow> int \<Rightarrow> store \<Rightarrow> db_error + store" where
  "upsert_balance_minus a p c =
     (if in_int4 p
      then case address_balances c a of
             None \<Rightarrow> Inr (c\<lparr>address_balances := (address_balances c)(a \<mapsto> p)\<rparr>)
           | Some balance \<Rightarrow>
               if in_int4 (balance - p)
               then Inr (c\<lparr>address_balances := (address_balances c)(a \<mapsto> balance - p)\<rparr>)
               else Inl NumericValueOutOfRange
      else Inl NumericValueOutOfRange)"

definition upsert_balance_plus :: "string \<Rightarrow> int \<Rightarrow> store \<Rightarrow> db_error + store" where
  "upsert_balance_plus a p c =
     (if in_int4 p
      then case address_balances c a of
             None \<Rightarrow> Inr (c\<lparr>address_balances := (address_balances c)(a \<mapsto> p)\<rparr>)
           | Some balance \<Rightarrow>
               if in_int4 (balance + p)
               then Inr (c\<lparr>address_balances := (address_balances c)(a \<mapsto> balance + p)\<rparr>)
               else Inl NumericValueOutOfRange
      else Inl NumericValueOutOfRange)"

text \<open>The body of the loop over \<open>tx.inputs\<close>: insert the input row, mark the referenced
  output spent, select it again and, if a row came back, run the upsert with the
  parameters \<open>[address, -value]\<close>.\<close>

definition processInput :: "string \<Rightarrow> store \<Rightarrow> Input \<Rightarrow> db_error + store" where
  "processInput txid c inp =
     (case insert_input txid inp c of
        Inl e \<Rightarrow> Inl e
      | Inr c1 \<Rightarrow>
          let c2 = set_spent True (in_txId inp) (in_index inp) c1;
              outputResult = filter (output_matches (in_txId inp) (in_index inp)) (transaction_outputs c2)
          in case outputResult of
               [] \<Rightarrow> Inr c2
             | r # _ \<Rightarrow> upsert_balance_minus (o_address r) (- o_value r) c2)"

text \<open>The body of the loop over \<open>tx.outputs\<close>, with the loop index \<open>i\<close>.\<close>

definition processOutput :: "string \<Rightarrow> store \<Rightarrow> int \<times> Output \<Rightarrow> db_error + store" where
  "processOutput txid c io =
     (case insert_output txid io c of
        Inl e \<Rightarrow> Inl e
      | Inr c1 \<Rightarrow> upsert_balance_plus (out_address (snd io)) (out_value (snd io)) c1)"

definition indexed :: "'a list \<Rightarrow> (int \<times> 'a) list" where
  "indexed xs = zip (map int [0..<length xs]) xs"

definition processTransaction :: "store \<Rightarrow> Transaction \<Rightarrow> string \<Rightarrow> db_error + store" where
  "processTransaction c tx blockId =
     (case insert_transaction c (tx_id tx) blockId of
        Inl e \<Rightarrow> Inl e
      | Inr c1 \<Rightarrow>
          (case for_each (processInput (tx_id tx)) c1 (tx_inputs tx) of
             Inl e \<Rightarrow> Inl e
           | Inr c2 \<Rightarrow> for_each (processOutput (tx_id tx)) c2 (indexed (tx_outputs tx))))"

fun processTransactions :: "store \<Rightarrow> Transaction list \<Rightarrow> string \<Rightarrow> db_error + store" where
  "processTransactions c [] blockId = Inr c"
| "processTransactions c (tx # txs) blockId =
     (case processTransaction c tx blockId of
        Inl e \<Rightarrow> Inl e
      | Inr c1 \<Rightarrow> processTransactions c1 txs blockId)"

text \<open>The statements of \<open>processBlock\<close> between BEGIN and COMMIT, on the connection's
  working copy of the store.\<close>

definition processBlock_unit :: "store \<Rightarrow> Block \<Rightarrow> db_error + store" where
  "processBlock_unit c block =
     (case insert_block c (blk_id block) (blk_height block) of
        Inl e \<Rightarrow> Inl e
      | Inr c1 \<Rightarrow> processTransactions c1 (blk_transactions block) (blk_id block))"

text \<open>\<open>processBlock\<close>: COMMIT makes the working copy the store; the catch block runs
  ROLLBACK, which leaves the store as it was, and throws the error again (\<open>Some e\<close>).\<close>

definition processBlock :: "store \<Rightarrow> Block \<Rightarrow> db_error option \<times> store" where
  "processBlock s block =
     (case processBlock_unit s block of
        Inl e \<Rightarrow> (Some e, s)
      | Inr c \<Rightarrow> (None, c))"

section \<open>DatabaseManager: rolling back\<close>

text \<open>\<open>UPDATE address_balances SET balance = balance - $2 WHERE address = $1\<close>, and the
  same with \<open>+ $2\<close>: no row, no change.\<close>

definition update_balance_minus :: "string \<Rightarrow> int \<Rightarrow> store \<Rightarrow> db_error + store" where
  "update_balance_minus a p c =
     (if in_int4 p
      then case address_balances c a of
             None \<Rightarrow> Inr c
           | Some balance \<Rightarrow>
               if in_int4 (balance - p)
               then Inr (c\<lparr>address_balances := (address_balances c)(a \<mapsto> balance - p)\<rparr>)
               else Inl NumericValueOutOfRange
      else Inl NumericValueOutOfRange)"

definition update_balance_plus :: "string \<Rightarrow> int \<Rightarrow> store \<Rightarrow> db_error + store" where
  "update_balance_plus a p c =
     (if in_int4 p
      then case address_balances c a of
             None \<Rightarrow> Inr c
           | Some balance \<Rightarrow>
               if in_int4 (balance + p)
               then Inr (c\<lparr>address_balances := (address_balances c)(a \<mapsto> balance + p)\<rparr>)
               else Inl NumericValueOutOfRange
      else Inl NumericValueOutOfRange)"

text \<open>The bodies of the two loops of \<open>rollbackTransaction\<close>, over the output rows and
  over the input rows of the transaction.\<close>

definition undoOutput :: "store \<Rightarrow> output_row \<Rightarrow> db_error + store" where
  "undoOutput c r = update_balance_minus (o_address r) (o_value r) c"

definition undoInput :: "store \<Rightarrow> input_row \<Rightarrow> db_error + store" where
  "undoInput c inp =
     (if in_int4 (i_input_index inp)
      then case filter (output_matches (i_input_tx_id inp) (i_input_index inp)) (transaction_outputs c) of
             [] \<Rightarrow> Inr c
           | r # _ \<Rightarrow>
               update_balance_plus (o_address r) (o_value r)
                 (set_spent False (i_input_tx_id inp) (i_input_index inp) c)
      else Inl NumericValueOutOfRange)"

definition delete_transaction_rows :: "string \<Rightarrow> store \<Rightarrow> store" where
  "delete_transaction_rows txId c =
     c\<lparr>transaction_inputs := filter (\<lambda>r. i_transaction_id r \<noteq> txId) (transaction_inputs c),
       transaction_outputs := filter (\<lambda>r. o_transaction_id r \<noteq> txId) (transaction_outputs c),
       transactions := filter (\<lambda>r. t_id r \<noteq> txId) (transactions c)\<rparr>"

definition rollbackTransaction :: "store \<Rightarrow> string \<Rightarrow> db_error + store" where
  "rollbackTransaction c txId =
     (let outputsResult = filter (\<lambda>r. o_transaction_id r = txId) (transaction_outputs c)
      in case for_each undoOutput c outputsResult of
           Inl e \<Rightarrow> Inl e
         | Inr c1 \<Rightarrow>
             let inputsResult = filter (\<lambda>r. i_transaction_id r = txId) (transaction_inputs c1)
             in case for_each undoInput c1 inputsResult of
                  Inl e \<Rightarrow> Inl e
                | Inr c2 \<Rightarrow> Inr (delete_transaction_rows txId c2))"

text \<open>\<open>SELECT id FROM transactions WHERE block_id = $1\<close>: the rows come back in table
  order, which is the order in which \<open>processBlock\<close> inserted them.\<close>

definition transactions_of_block :: "store \<Rightarrow> string \<Rightarrow> string list" where
  "transactions_of_block c bid = map t_id (filter (\<lambda>r. t_block_id r = bid) (transactions c))"

definition rollbackBlock :: "store \<Rightarrow> block_row \<Rightarrow> db_error + store" where
  "rollbackBlock c block =
     (case for_each rollbackTransaction c (transactions_of_block c (b_id block)) of
        Inl e \<Rightarrow> Inl e
      | Inr c1 \<Rightarrow> Inr (c1\<lparr>blocks := filter (\<lambda>r. b_id r \<noteq> b_id block) (blocks c1)\<rparr>))"

text \<open>\<open>SELECT id, height FROM blocks WHERE height > $1 ORDER BY height DESC\<close>, for a
  target that is an INTEGER.\<close>

definition blocks_above :: "store \<Rightarrow> int \<Rightarrow> block_row list" where
  "blocks_above c targetHeight =
     rev (sort_key b_height (filter (\<lambda>r. b_height r > targetHeight) (blocks c)))"

text \<open>The statements of \<open>rollbackToHeight\<close> between BEGIN and COMMIT, on the connection's
  working copy of the store.\<close>

definition rollbackToHeight_unit :: "store \<Rightarrow> int \<Rightarrow> db_error + store" where
  "rollbackToHeight_unit c targetHeight =
     (if in_int4 targetHeight
      then for_each rollbackBlock c (blocks_above c targetHeight)
      else Inl NumericValueOutOfRange)"

text \<open>\<open>rollbackToHeight\<close>: COMMIT makes the working copy the store; the catch block runs
  ROLLBACK, which leaves the store as it was, and throws the error again (\<open>Some e\<close>).\<close>

definition rollbackToHeight :: "store \<Rightarrow> int \<Rightarrow> db_error option \<times> store" where
  "rollbackToHeight s targetHeight =
     (case rollbackToHeight_unit s targetHeight of
        Inl e \<Rightarrow> (Some e, s)
      | Inr c \<Rightarrow> (None, c))"

section \<open>RouteHandler\<close>

record reply =
  status :: nat
  reply_error :: "string option"
  reply_message :: "string option"

text \<open>\<open>POST /blocks\<close>: the reply and the \<open>DatabaseManager\<close> after the request.\<close>

definition postBlocks :: "(string \<Rightarrow> string) \<Rightarrow> DatabaseManager \<Rightarrow> Block \<Rightarrow> reply \<times> DatabaseManager" where
  "postBlocks H db block =
     (let validationResult = validateBlock H db block
      in if \<not> isValid validationResult
         then (\<lparr>status = 400, reply_error = error validationResult,
                 reply_message = message validationResult\<rparr>, db)
         else case processBlock (pool db) block of
                (Some e, s) \<Rightarrow>
                  (\<lparr>status = 500, reply_error = Some ''Internal server error'',
                    reply_message = None\<rparr>, db\<lparr>pool := s\<rparr>)
              | (None, s) \<Rightarrow>
                  (\<lparr>status = 200, reply_error = None,
                    reply_message = Some ''Block processed successfully''\<rparr>,
                   setCurrentHeight (db\<lparr>pool := s\<rparr>) (blk_height block)))"

text \<open>\<open>GET /balance/:address\<close>.\<close>

definition getBalance :: "DatabaseManager \<Rightarrow> string \<Rightarrow> int" where
  "getBalance db address = getAddressBalance (pool db) address"

text \<open>\<open>POST /rollback\<close>, from the result of \<open>parseInt(height)\<close> on.  An error thrown by
  \<open>rollbackToHeight\<close> is caught and answered with 500, before \<open>setCurrentHeight\<close> is
  reached.  The branch for \<open>NaN\<close> after a passed validation is never taken, since
  \<open>validateRollbackHeight\<close> rejects \<open>NaN\<close>; there the query of \<open>rollbackToHeight\<close> would
  throw.\<close>

definition postRollback :: "DatabaseManager \<Rightarrow> int option \<Rightarrow> reply \<times> DatabaseManager" where
  "postRollback db targetHeight =
     (let curHeight = getCurrentHeight db;
          validationResult = validateRollbackHeight targetHeight curHeight
      in if \<not> isValid validationResult
         then (\<lparr>status = 400, reply_error = error validationResult,
                 reply_message = message validationResult\<rparr>, db)
         else case targetHeight of
                None \<Rightarrow> (\<lparr>status = 500, reply_error = Some ''Internal server error'',
                           reply_message = None\<rparr>, db)
              | Some t \<Rightarrow>
                  (case rollbackToHeight (pool db) t of
                     (Some e, s) \<Rightarrow>
                       (\<lparr>status = 500, reply_error = Some ''Internal server error'',
                         reply_message = None\<rparr>, db\<lparr>pool := s\<rparr>)
                   | (None, s) \<Rightarrow>
                       (\<lparr>status = 200, reply_error = None,
                         reply_message = Some (''Successfully rolled back to height '' @ string_of_int t)\<rparr>,
                        setCurrentHeight (db\<lparr>pool := s\<rparr>) t)))"

section \<open>Vocabulary of the properties\<close>

text \<open>What an input refers to in a store: whether \<open>getInputValue\<close> finds the output, and
  the value it returns.  A transaction balances in a store when all its inputs resolve
  and their values add up to the sum of its outputs' values.\<close>

definition input_value :: "store \<Rightarrow> Input \<Rightarrow> int" where
  "input_value s i = (case getInputValue s (in_txId i) (in_index i) of Inr v \<Rightarrow> v | Inl _ \<Rightarrow> 0)"

definition input_resolves :: "store \<Rightarrow> Input \<Rightarrow> bool" where
  "input_resolves s i = (case getInputValue s (in_txId i) (in_index i) of Inr v \<Rightarrow> True | Inl _ \<Rightarrow> False)"

definition tx_balanced :: "store \<Rightarrow> Transaction \<Rightarrow> bool" where
  "tx_balanced s tx =
     (list_all (input_resolves s) (tx_inputs tx)
      \<and> sum_list (map (input_value s) (tx_inputs tx)) = sum_list (map out_value (tx_outputs tx)))"

text \<open>The store with the spent flag of every output row replaced by \<open>f\<close> of the row.\<close>

definition reflag :: "(output_row \<Rightarrow> bool) \<Rightarrow> store \<Rightarrow> store" where
  "reflag f s = s\<lparr>transaction_outputs := map (\<lambda>r. r\<lparr>o_is_spent := f r\<rparr>) (transaction_outputs s)\<rparr>"

text \<open>The sum of the values of the unspent outputs of an address, which the stored
  balance is meant to equal.\<close>

definition unspent_sum :: "store \<Rightarrow> string \<Rightarrow> int" where
  "unspent_sum s a =
     sum_list (map o_value (filter (\<lambda>r. o_address r = a \<and> \<not> o_is_spent r) (transaction_outputs s)))"

text \<open>The vocabulary of an undone transaction.  \<open>referenced_output\<close> is the row that
  \<open>rollbackTransaction\<close> reads for an input row; \<open>undone_debit\<close> and \<open>undone_credit\<close> are
  what undoing transaction \<open>t\<close> takes from and gives to the balance of address \<open>a\<close>;
  \<open>restored\<close> holds for the output rows that an input row of \<open>t\<close> refers to.\<close>

definition referenced_output :: "store \<Rightarrow> input_row \<Rightarrow> output_row option" where
  "referenced_output c inp =
     (case filter (output_matches (i_input_tx_id inp) (i_input_index inp)) (transaction_outputs c) of
        [] \<Rightarrow> None
      | r # _ \<Rightarrow> Some r)"

definition input_credit :: "store \<Rightarrow> string \<Rightarrow> input_row \<Rightarrow> int" where
  "input_credit c a inp =
     (case referenced_output c inp of
        None \<Rightarrow> 0
      | Some r \<Rightarrow> if o_address r = a then o_value r else 0)"

definition undone_credit :: "store \<Rightarrow> string \<Rightarrow> string \<Rightarrow> int" where
  "undone_credit c t a =
     sum_list (map (input_credit c a) (filter (\<lambda>r. i_transaction_id r = t) (transaction_inputs c)))"

definition undone_debit :: "store \<Rightarrow> string \<Rightarrow> string \<Rightarrow> int" where
  "undone_debit c t a =
     sum_list (map o_value (filter (\<lambda>r. o_transaction_id r = t \<and> o_address r = a) (transaction_outputs c)))"

definition restored :: "input_row list \<Rightarrow> output_row \<Rightarrow> bool" where
  "restored ins r = list_ex (\<lambda>inp. output_matches (i_input_tx_id inp) (i_input_index inp) r) ins"


text \<open>The output rows that \<open>processTransaction\<close> inserts for a transaction, and the
  foreign keys of the store: every transaction row names a block row, and every input
  and output row names a transaction row.\<close>

definition output_row_of :: "string \<Rightarrow> int \<times> Output \<Rightarrow> output_row" where
  "output_row_of t io =
     \<lparr>o_transaction_id = t, o_address = out_address (snd io), o_value = out_value (snd io),
      o_output_index = fst io, o_is_spent = False\<rparr>"

definition output_rows_of :: "Transaction \<Rightarrow> output_row list" where
  "output_rows_of tx = map (output_row_of (tx_id tx)) (indexed (tx_outputs tx))"

definition foreign_keys_hold :: "store \<Rightarrow> bool" where
  "foreign_keys_hold s =
     (set (map t_block_id (transactions s)) \<subseteq> set (map b_id (blocks s))
      \<and> set (map i_transaction_id (transaction_inputs s)) \<subseteq> set (map t_id (transactions s))
      \<and> set (map o_transaction_id (transaction_outputs s)) \<subseteq> set (map t_id (transactions s)))"

section \<open>Example blocks and stores\<close>

text \<open>The block ids are what \<open>calculateBlockId\<close> gives with the identity function in
  place of the hash.  Blocks 1, 2 and 3 form a chain: the first pays 100 to \<open>A\<close>, the
  second spends that output, the third spends it again.\<close>

definition ex_block1 :: Block where
  "ex_block1 = \<lparr>blk_id = ''1t1'', blk_height = 1, blk_transactions =
     [\<lparr>tx_id = ''t1'', tx_inputs = [],
       tx_outputs = [\<lparr>out_address = ''A'', out_value = 100\<rparr>]\<rparr>]\<rparr>"

definition ex_block2 :: Block where
  "ex_block2 = \<lparr>blk_id = ''2t2'', blk_height = 2, blk_transactions =
     [\<lparr>tx_id = ''t2'', tx_inputs = [\<lparr>in_txId = ''t1'', in_index = 0\<rparr>],
       tx_outputs = [\<lparr>out_address = ''B'', out_value = 60\<rparr>,
                     \<lparr>out_address = ''C'', out_value = 40\<rparr>]\<rparr>]\<rparr>"

definition ex_dup_block :: Block where
  "ex_dup_block = \<lparr>blk_id = ''1t1t1'', blk_height = 1, blk_transactions =
     [\<lparr>tx_id = ''t1'', tx_inputs = [], tx_outputs = [\<lparr>out_address = ''A'', out_value = 1\<rparr>]\<rparr>,
      \<lparr>tx_id = ''t1'', tx_inputs = [], tx_outputs = [\<lparr>out_address = ''A'', out_value = 1\<rparr>]\<rparr>]\<rparr>"

definition store1 :: store where
  "store1 = snd (processBlock empty_store ex_block1)"

definition store2 :: store where
  "store2 = snd (processBlock store1 ex_block2)"

definition db0 :: DatabaseManager where
  "db0 = \<lparr>pool = empty_store, currentHeight = 0\<rparr>"

definition db2 :: DatabaseManager where
  "db2 = \<lparr>pool = store2, currentHeight = 2\<rparr>"

definition ex_block3 :: Block where
  "ex_block3 = \<lparr>blk_id = ''3t3'', blk_height = 3, blk_transactions =
     [\<lparr>tx_id = ''t3'', tx_inputs = [\<lparr>in_txId = ''t1'', in_index = 0\<rparr>],
       tx_outputs = [\<lparr>out_address = ''D'', out_value = 100\<rparr>]\<rparr>]\<rparr>"

definition ex_dangling_block :: Block where
  "ex_dangling_block = \<lparr>blk_id = ''1t1'', blk_height = 1, blk_transactions =
     [\<lparr>tx_id = ''t1'', tx_inputs = [\<lparr>in_txId = ''t0'', in_index = 0\<rparr>],
       tx_outputs = [\<lparr>out_address = ''A'', out_value = 5\<rparr>]\<rparr>]\<rparr>"



definition ex_mint_block :: Block where
  "ex_mint_block = \<lparr>blk_id = ''2t4'', blk_height = 2, blk_transactions =
     [\<lparr>tx_id = ''t4'', tx_inputs = [],
       tx_outputs = [\<lparr>out_address = ''A'', out_value = 7\<rparr>, \<lparr>out_address = ''E'', out_value = 3\<rparr>]\<rparr>]\<rparr>"

text \<open>Blocks with large values: \<open>ex_big_block1\<close> pays 1000000000 to \<open>A\<close> and
  \<open>ex_big_block2\<close> spends that output; \<open>ex_overflow_block\<close> pays more than an INTEGER
  holds.\<close>

definition ex_big_block1 :: Block where
  "ex_big_block1 = \<lparr>blk_id = ''1u1'', blk_height = 1, blk_transactions =
     [\<lparr>tx_id = ''u1'', tx_inputs = [],
       tx_outputs = [\<lparr>out_address = ''A'', out_value = 1000000000\<rparr>]\<rparr>]\<rparr>"

definition ex_big_block2 :: Block where
  "ex_big_block2 = \<lparr>blk_id = ''2u2'', blk_height = 2, blk_transactions =
     [\<lparr>tx_id = ''u2'', tx_inputs = [\<lparr>in_txId = ''u1'', in_index = 0\<rparr>],
       tx_outputs = [\<lparr>out_address = ''B'', out_value = 1000000000\<rparr>]\<rparr>]\<rparr>"

definition ex_overflow_block :: Block where
  "ex_overflow_block = \<lparr>blk_id = ''1u3'', blk_height = 1, blk_transactions =
     [\<lparr>tx_id = ''u3'', tx_inputs = [],
       tx_outputs = [\<lparr>out_address = ''A'', out_value = 3000000000\<rparr>]\<rparr>]\<rparr>"

definition big_store2 :: store where
  "big_store2 = snd (processBlock (snd (processBlock empty_store ex_big_block1)) ex_big_block2)"

definition big_db2 :: DatabaseManager where
  "big_db2 = \<lparr>pool = big_store2, currentHeight = 2\<rparr>"

text \<open>Two stores are the same but for the spent flags when they agree on every
  table and, with the flags cleared, on the output rows.\<close>

definition unflag :: "output_row \<Rightarrow> output_row" where
  "unflag r = r\<lparr>o_is_spent := False\<rparr>"

definition same_but_flags :: "store \<Rightarrow> store \<Rightarrow> bool" where
  "same_but_flags c c' =
     (blocks c = blocks c' \<and> transactions c = transactions c'
      \<and> transaction_inputs c = transaction_inputs c'
      \<and> address_balances c = address_balances c'
      \<and> map unflag (transaction_outputs c) = map unflag (transaction_outputs c'))"

section \<open>Validation results and decimal text\<close>

lemma isValid_invalid_result [simp]: "\<not> isValid (invalid_result e m)"
  and error_invalid_result [simp]: "error (invalid_result e m) = Some e"
  and message_invalid_result [simp]: "message (invalid_result e m) = Some m"
  by (simp_all add: invalid_result_def)

lemma isValid_valid_result [simp]: "isValid valid_result"
  and error_valid_result [simp]: "error valid_result = None"
  by (simp_all add: valid_result_def)

lemma string_of_int_1: "string_of_int 1 = ''1''"
  by code_simp

lemma string_of_int_12: "string_of_int 12 = ''12''"
  by code_simp

section \<open>The block id\<close>

text \<open>C9: \<open>calculateBlockId\<close> hashes the decimal height followed by the transaction ids
  joined with no separator; so height 1 with the id \<open>23\<close> and height 12 with the id \<open>3\<close>
  get the same block id, whatever the hash function is.\<close>

theorem calculateBlockId_concat:
  "calculateBlockId H height ids = H (string_of_int height @ concat ids)
   \<and> string_of_int 1 @ concat [''23''] = ''123''
   \<and> string_of_int 12 @ concat [''3''] = ''123''
   \<and> calculateBlockId H 1 [''23''] = calculateBlockId H 12 [''3'']"
  by (simp add: calculateBlockId_def string_of_int_1 string_of_int_12)

section \<open>The rollback target\<close>

text \<open>C7: \<open>validateRollbackHeight\<close> accepts exactly the targets that are an integer of at
  least 1, at most the current height and at most 2000 below it; a target that is not a
  positive integer, a target above the current height and a target more than 2000 below
  it are rejected with three different errors.  At height 2500 the target 400 is rejected
  as too far and the target 501 is accepted.\<close>

theorem validateRollbackHeight_cases:
  "(isValid (validateRollbackHeight t cur) \<longleftrightarrow>
      (\<exists>n. t = Some n \<and> 1 \<le> n \<and> n \<le> cur \<and> cur - n \<le> 2000))
   \<and> (t = None \<or> (\<exists>n. t = Some n \<and> n < 1) \<longrightarrow>
        error (validateRollbackHeight t cur) = Some ''Invalid height'')
   \<and> ((\<exists>n. t = Some n \<and> 1 \<le> n \<and> cur < n) \<longrightarrow>
        error (validateRollbackHeight t cur) = Some ''Invalid rollback height'')
   \<and> ((\<exists>n. t = Some n \<and> 1 \<le> n \<and> n \<le> cur \<and> 2000 < cur - n) \<longrightarrow>
        error (validateRollbackHeight t cur) = Some ''Rollback too far'')
   \<and> error (validateRollbackHeight (Some 400) 2500) = Some ''Rollback too far''
   \<and> isValid (validateRollbackHeight (Some 501) 2500)"
  by (cases t) (auto simp: validateRollbackHeight_def)

theorem validateRollbackHeight_cases_witness:
  "error (validateRollbackHeight (Some 0) 5) = Some ''Invalid height''
   \<and> error (validateRollbackHeight None 5) = Some ''Invalid height''
   \<and> error (validateRollbackHeight (Some 9) 5) = Some ''Invalid rollback height''
   \<and> error (validateRollbackHeight (Some 1) 5000) = Some ''Rollback too far''
   \<and> isValid (validateRollbackHeight (Some 3) 5)"
  using validateRollbackHeight_cases [of "Some 0" 5] validateRollbackHeight_cases [of None 5]
    validateRollbackHeight_cases [of "Some 9" 5] validateRollbackHeight_cases [of "Some 1" 5000]
    validateRollbackHeight_cases [of "Some 3" 5]
  by simp

section \<open>Block validation\<close>

lemma outputSum_foldl: "foldl (\<lambda>sum out. sum + out_value out) a outs = a + sum_list (map out_value outs)"
  by (induction outs arbitrary: a) auto

lemma outputSum_sum_list: "outputSum tx = sum_list (map out_value (tx_outputs tx))"
  by (simp add: outputSum_def outputSum_foldl)

lemma sumInputValues_resolved:
  "list_all (input_resolves s) ins \<Longrightarrow>
     sumInputValues s ins a = Inr (a + sum_list (map (input_value s) ins))"
proof (induction ins arbitrary: a)
  case Nil
  show ?case by simp
next
  case (Cons i ins)
  from Cons.prems obtain v where v: "getInputValue s (in_txId i) (in_index i) = Inr v"
    by (cases "getInputValue s (in_txId i) (in_index i)") (simp_all add: input_resolves_def)
  from Cons.prems have rest: "list_all (input_resolves s) ins" by simp
  have "input_value s i = v" using v by (simp add: input_value_def)
  then show ?case using v Cons.IH [OF rest, of "a + v"] by simp
qed

lemma sumInputValues_unresolved:
  "\<not> list_all (input_resolves s) ins \<Longrightarrow> \<exists>m. sumInputValues s ins a = Inl m"
proof (induction ins arbitrary: a)
  case Nil
  then show ?case by simp
next
  case (Cons i ins)
  show ?case
  proof (cases "getInputValue s (in_txId i) (in_index i)")
    case (Inl m)
    then show ?thesis by simp
  next
    case (Inr v)
    then have "input_resolves s i" by (simp add: input_resolves_def)
    with Cons.prems have "\<not> list_all (input_resolves s) ins" by simp
    from Cons.IH [OF this, of "a + v"] Inr show ?thesis by simp
  qed
qed

lemma validateInputOutputBalance_step:
  "tx_inputs tx \<noteq> [] \<Longrightarrow>
     isValid (validateInputOutputBalance s (tx # txs)) \<longleftrightarrow>
       tx_balanced s tx \<and> isValid (validateInputOutputBalance s txs)"
proof (cases "list_all (input_resolves s) (tx_inputs tx)")
  case True
  assume "tx_inputs tx \<noteq> []"
  then show ?thesis
    using sumInputValues_resolved [OF True, of 0]
    by (simp add: tx_balanced_def True outputSum_sum_list)
next
  case False
  assume ne: "tx_inputs tx \<noteq> []"
  from sumInputValues_unresolved [OF False, of 0]
  obtain m where "sumInputValues s (tx_inputs tx) 0 = Inl m" by blast
  then show ?thesis using ne False by (simp add: tx_balanced_def)
qed

lemma validateInputOutputBalance_isValid:
  "isValid (validateInputOutputBalance s txs) \<longleftrightarrow>
     list_all (\<lambda>tx. tx_inputs tx = [] \<or> tx_balanced s tx) txs"
proof (induction txs)
  case Nil
  show ?case by simp
next
  case (Cons tx txs)
  show ?case
  proof (cases "tx_inputs tx = []")
    case True
    then show ?thesis using Cons by simp
  next
    case False
    then show ?thesis using Cons validateInputOutputBalance_step [OF False, of s txs]
      by simp
  qed
qed


lemma validateInputOutputBalance_valid_result:
  "isValid (validateInputOutputBalance s txs) \<Longrightarrow> validateInputOutputBalance s txs = valid_result"
proof (induction txs)
  case Nil
  show ?case by simp
next
  case (Cons tx txs)
  show ?case
  proof (cases "tx_inputs tx = []")
    case True
    then show ?thesis using Cons by simp
  next
    case False
    from Cons.prems validateInputOutputBalance_step [OF False, of s txs]
    have bal: "tx_balanced s tx" and rest: "isValid (validateInputOutputBalance s txs)" by simp_all
    from bal have "sumInputValues s (tx_inputs tx) 0 = Inr (outputSum tx)"
      using sumInputValues_resolved [of s "tx_inputs tx" 0]
      by (simp add: tx_balanced_def outputSum_sum_list)
    then show ?thesis using False Cons.IH [OF rest] by simp
  qed
qed

lemma validateBlock_height_fails:
  "blk_height b \<noteq> currentHeight db + 1 \<Longrightarrow>
     validateBlock H db b = validateHeight (blk_height b) (currentHeight db)"
  by (simp add: validateBlock_def validateHeight_def getCurrentHeight_def)

lemma validateBlock_id_fails:
  "blk_height b = currentHeight db + 1 \<Longrightarrow> \<not> validateBlockId H b \<Longrightarrow>
     validateBlock H db b = validateBlockIdFormat H b"
  by (simp add: validateBlock_def validateHeight_def validateBlockIdFormat_def getCurrentHeight_def)

lemma validateBlock_balance:
  "blk_height b = currentHeight db + 1 \<Longrightarrow> validateBlockId H b \<Longrightarrow>
     validateBlock H db b = validateInputOutputBalance (pool db) (blk_transactions b)"
  using validateInputOutputBalance_valid_result [of "pool db" "blk_transactions b"]
  by (cases "isValid (validateInputOutputBalance (pool db) (blk_transactions b))")
     (simp_all add: validateBlock_def validateHeight_def validateBlockIdFormat_def
        getCurrentHeight_def Let_def)

lemma validateBlock_needs_balance:
  assumes "isValid (validateBlock H db b)"
  shows "isValid (validateInputOutputBalance (pool db) (blk_transactions b))"
proof (cases "blk_height b = currentHeight db + 1")
  case False
  then have "\<not> isValid (validateBlock H db b)"
    by (simp add: validateBlock_height_fails validateHeight_def)
  with assms show ?thesis by simp
next
  case True
  show ?thesis
  proof (cases "validateBlockId H b")
    case False
    with True have "\<not> isValid (validateBlock H db b)"
      by (simp add: validateBlock_id_fails validateBlockIdFormat_def)
    with assms show ?thesis by simp
  next
    case id: True
    from assms show ?thesis by (simp add: validateBlock_balance [OF True id])
  qed
qed



section \<open>Requests that fail\<close>

lemma processBlock_failure_keeps_store:
  "fst (processBlock s b) \<noteq> None \<Longrightarrow> snd (processBlock s b) = s"
  by (cases "processBlock_unit s b") (simp_all add: processBlock_def)

lemma processBlock_cases:
  "(\<exists>e. processBlock s b = (Some e, s)) \<or> (\<exists>c. processBlock s b = (None, c) \<and> processBlock_unit s b = Inr c)"
  by (cases "processBlock_unit s b") (simp_all add: processBlock_def)

lemma rollbackToHeight_failure_keeps_store:
  "fst (rollbackToHeight s n) \<noteq> None \<Longrightarrow> snd (rollbackToHeight s n) = s"
  by (cases "rollbackToHeight_unit s n") (simp_all add: rollbackToHeight_def)

lemma rollbackToHeight_cases:
  "(\<exists>e. rollbackToHeight s n = (Some e, s))
   \<or> (\<exists>c. rollbackToHeight s n = (None, c) \<and> rollbackToHeight_unit s n = Inr c)"
  by (cases "rollbackToHeight_unit s n") (simp_all add: rollbackToHeight_def)

lemma postBlocks_invalid:
  "\<not> isValid (validateBlock H db b) \<Longrightarrow>
     postBlocks H db b = (\<lparr>status = 400, reply_error = error (validateBlock H db b),
        reply_message = message (validateBlock H db b)\<rparr>, db)"
  by (simp add: postBlocks_def Let_def)

lemma postBlocks_storage_error:
  "isValid (validateBlock H db b) \<Longrightarrow> processBlock (pool db) b = (Some e, s) \<Longrightarrow>
     postBlocks H db b = (\<lparr>status = 500, reply_error = Some ''Internal server error'',
        reply_message = None\<rparr>, db)"
  using processBlock_failure_keeps_store [of "pool db" b]
  by (simp add: postBlocks_def)

lemma postBlocks_success:
  "isValid (validateBlock H db b) \<Longrightarrow> processBlock (pool db) b = (None, s) \<Longrightarrow>
     postBlocks H db b = (\<lparr>status = 200, reply_error = None,
        reply_message = Some ''Block processed successfully''\<rparr>,
        \<lparr>pool = s, currentHeight = blk_height b\<rparr>)"
  by (simp add: postBlocks_def setCurrentHeight_def)

lemma postRollback_invalid:
  "\<not> isValid (validateRollbackHeight t (currentHeight db)) \<Longrightarrow>
     postRollback db t = (\<lparr>status = 400, reply_error = error (validateRollbackHeight t (currentHeight db)),
        reply_message = message (validateRollbackHeight t (currentHeight db))\<rparr>, db)"
  by (simp add: postRollback_def getCurrentHeight_def Let_def)

lemma validateRollbackHeight_valid_Some:
  "isValid (validateRollbackHeight t cur) \<Longrightarrow> \<exists>n. t = Some n"
  by (cases t) (simp_all add: validateRollbackHeight_def)

lemma postRollback_storage_error:
  "isValid (validateRollbackHeight (Some n) (currentHeight db)) \<Longrightarrow>
     rollbackToHeight (pool db) n = (Some e, s) \<Longrightarrow>
     postRollback db (Some n) = (\<lparr>status = 500, reply_error = Some ''Internal server error'',
        reply_message = None\<rparr>, db)"
  using rollbackToHeight_failure_keeps_store [of "pool db" n]
  by (simp add: postRollback_def getCurrentHeight_def)

lemma postRollback_success:
  "isValid (validateRollbackHeight (Some n) (currentHeight db)) \<Longrightarrow>
     rollbackToHeight (pool db) n = (None, s) \<Longrightarrow>
     postRollback db (Some n) = (\<lparr>status = 200, reply_error = None,
        reply_message = Some (''Successfully rolled back to height '' @ string_of_int n)\<rparr>,
        \<lparr>pool = s, currentHeight = n\<rparr>)"
  by (simp add: postRollback_def getCurrentHeight_def setCurrentHeight_def)

lemma postBlocks_outcome:
  "(status (fst (postBlocks H db b)) \<noteq> 200 \<longrightarrow> snd (postBlocks H db b) = db)
   \<and> (status (fst (postBlocks H db b)) = 200 \<longrightarrow>
        isValid (validateBlock H db b)
        \<and> processBlock (pool db) b = (None, pool (snd (postBlocks H db b)))
        \<and> currentHeight (snd (postBlocks H db b)) = blk_height b)
   \<and> (status (fst (postBlocks H db b)) = 500 \<longleftrightarrow>
        isValid (validateBlock H db b) \<and> fst (processBlock (pool db) b) \<noteq> None)"
proof (cases "isValid (validateBlock H db b)")
  case False
  then show ?thesis by (simp add: postBlocks_invalid)
next
  case True
  from processBlock_cases [of "pool db" b] show ?thesis
  proof (elim disjE exE conjE)
    fix e assume "processBlock (pool db) b = (Some e, pool db)"
    then show ?thesis using True by (simp add: postBlocks_storage_error)
  next
    fix c assume "processBlock (pool db) b = (None, c)"
    then show ?thesis using True by (simp add: postBlocks_success)
  qed
qed

lemma postRollback_outcome:
  "(status (fst (postRollback db t)) \<noteq> 200 \<longrightarrow> snd (postRollback db t) = db)
   \<and> (status (fst (postRollback db t)) = 200 \<longrightarrow>
        isValid (validateRollbackHeight t (currentHeight db))
        \<and> rollbackToHeight (pool db) (the t) = (None, pool (snd (postRollback db t)))
        \<and> Some (currentHeight (snd (postRollback db t))) = t)
   \<and> (status (fst (postRollback db t)) = 500 \<longleftrightarrow>
        isValid (validateRollbackHeight t (currentHeight db))
        \<and> fst (rollbackToHeight (pool db) (the t)) \<noteq> None)"
proof (cases "isValid (validateRollbackHeight t (currentHeight db))")
  case False
  then show ?thesis by (simp add: postRollback_invalid)
next
  case True
  then obtain n where n: "t = Some n" using validateRollbackHeight_valid_Some by blast
  from rollbackToHeight_cases [of "pool db" n] show ?thesis
  proof (elim disjE exE conjE)
    fix e assume "rollbackToHeight (pool db) n = (Some e, pool db)"
    then show ?thesis using True n by (simp add: postRollback_storage_error)
  next
    fix c assume "rollbackToHeight (pool db) n = (None, c)"
    then show ?thesis using True n by (simp add: postRollback_success)
  qed
qed

text \<open>C6: a request that does not end with status 200 leaves the \<open>DatabaseManager\<close>, its
  store and its current height as they were.  That is so for \<open>POST /blocks\<close> and for
  \<open>POST /rollback\<close>, after a failed validation (400) and after an error thrown inside
  the storage unit (500): \<open>processBlock\<close> and \<open>rollbackToHeight\<close> answer an error of any
  of their statements with ROLLBACK, which leaves the store untouched, and throw it
  again, so that \<open>setCurrentHeight\<close> is not reached.  A request that ends with 200 has
  passed validation and sets the current height after the unit has committed: to the
  block's height, with the store that \<open>processBlock\<close> committed, or to the target, with
  the store that \<open>rollbackToHeight\<close> committed.\<close>

theorem failure_changes_nothing:
  "(status (fst (postBlocks H db b)) \<noteq> 200 \<longrightarrow> snd (postBlocks H db b) = db)
   \<and> (status (fst (postBlocks H db b)) = 200 \<longrightarrow>
        isValid (validateBlock H db b)
        \<and> processBlock (pool db) b = (None, pool (snd (postBlocks H db b)))
        \<and> currentHeight (snd (postBlocks H db b)) = blk_height b)
   \<and> (status (fst (postBlocks H db b)) = 500 \<longleftrightarrow>
        isValid (validateBlock H db b) \<and> fst (processBlock (pool db) b) \<noteq> None)
   \<and> (fst (processBlock s b) \<noteq> None \<longrightarrow> snd (processBlock s b) = s)
   \<and> (status (fst (postRollback db t)) \<noteq> 200 \<longrightarrow> snd (postRollback db t) = db)
   \<and> (status (fst (postRollback db t)) = 200 \<longrightarrow>
        isValid (validateRollbackHeight t (currentHeight db))
        \<and> rollbackToHeight (pool db) (the t) = (None, pool (snd (postRollback db t)))
        \<and> Some (currentHeight (snd (postRollback db t))) = t)
   \<and> (status (fst (postRollback db t)) = 500 \<longleftrightarrow>
        isValid (validateRollbackHeight t (currentHeight db))
        \<and> fst (rollbackToHeight (pool db) (the t)) \<noteq> None)
   \<and> (fst (rollbackToHeight s n) \<noteq> None \<longrightarrow> snd (rollbackToHeight s n) = s)"
  using postBlocks_outcome [of H db b] postRollback_outcome [of db t]
    processBlock_failure_keeps_store [of s b] rollbackToHeight_failure_keeps_store [of s n]
  by blast

theorem failure_changes_nothing_witness:
  "status (fst (postBlocks (\<lambda>x. x) db0 ex_block2)) = 400
   \<and> snd (postBlocks (\<lambda>x. x) db0 ex_block2) = db0
   \<and> status (fst (postBlocks (\<lambda>x. x) db0 ex_dup_block)) = 500
   \<and> snd (postBlocks (\<lambda>x. x) db0 ex_dup_block) = db0
   \<and> fst (processBlock empty_store ex_dup_block) = Some (UniqueViolation ''transactions_pkey'')
   \<and> snd (processBlock empty_store ex_dup_block) = empty_store
   \<and> status (fst (postBlocks (\<lambda>x. x) db0 ex_overflow_block)) = 500
   \<and> snd (postBlocks (\<lambda>x. x) db0 ex_overflow_block) = db0
   \<and> status (fst (postBlocks (\<lambda>x. x) db0 ex_block1)) = 200
   \<and> currentHeight (snd (postBlocks (\<lambda>x. x) db0 ex_block1)) = 1
   \<and> status (fst (postRollback db2 (Some 3))) = 400
   \<and> snd (postRollback db2 (Some 3)) = db2
   \<and> status (fst (postRollback db2 (Some 1))) = 200
   \<and> currentHeight (snd (postRollback db2 (Some 1))) = 1
   \<and> getAddressBalance big_store2 ''A'' = 2000000000
   \<and> fst (rollbackToHeight big_store2 1) = Some NumericValueOutOfRange
   \<and> snd (rollbackToHeight big_store2 1) = big_store2
   \<and> status (fst (postRollback big_db2 (Some 1))) = 500
   \<and> snd (postRollback big_db2 (Some 1)) = big_db2
   \<and> currentHeight (snd (postRollback big_db2 (Some 1))) = 2"
proof -
  have a: "status (fst (postBlocks (\<lambda>x. x) db0 ex_block2)) = 400" by code_simp
  have b: "status (fst (postBlocks (\<lambda>x. x) db0 ex_dup_block)) = 500" by code_simp
  have c: "fst (processBlock empty_store ex_dup_block) = Some (UniqueViolation ''transactions_pkey'')"
    by code_simp
  have d: "status (fst (postBlocks (\<lambda>x. x) db0 ex_block1)) = 200" by code_simp
  have e: "status (fst (postRollback db2 (Some 3))) = 400" by code_simp
  have f: "status (fst (postRollback db2 (Some 1))) = 200" by code_simp
  have g: "status (fst (postBlocks (\<lambda>x. x) db0 ex_overflow_block)) = 500" by code_simp
  have h: "fst (rollbackToHeight big_store2 1) = Some NumericValueOutOfRange" by code_simp
  have i: "status (fst (postRollback big_db2 (Some 1))) = 500" by code_simp
  have j: "getAddressBalance big_store2 ''A'' = 2000000000" by code_simp
  have a': "snd (postBlocks (\<lambda>x. x) db0 ex_block2) = db0"
    using failure_changes_nothing [of "\<lambda>x. x" db0 ex_block2] a by simp
  have b': "snd (postBlocks (\<lambda>x. x) db0 ex_dup_block) = db0"
    using failure_changes_nothing [of "\<lambda>x. x" db0 ex_dup_block] b by simp
  have c': "snd (processBlock empty_store ex_dup_block) = empty_store"
    using failure_changes_nothing [where s = empty_store and b = ex_dup_block] c by simp
  have d': "currentHeight (snd (postBlocks (\<lambda>x. x) db0 ex_block1)) = 1"
    using failure_changes_nothing [of "\<lambda>x. x" db0 ex_block1] d by (simp add: ex_block1_def)
  have e': "snd (postRollback db2 (Some 3)) = db2"
    using failure_changes_nothing [where db = db2 and t = "Some 3"] e by simp
  have f': "currentHeight (snd (postRollback db2 (Some 1))) = 1"
    using failure_changes_nothing [where db = db2 and t = "Some 1"] f by simp
  have g': "snd (postBlocks (\<lambda>x. x) db0 ex_overflow_block) = db0"
    using failure_changes_nothing [of "\<lambda>x. x" db0 ex_overflow_block] g by simp
  have h': "snd (rollbackToHeight big_store2 1) = big_store2"
    using failure_changes_nothing [where s = big_store2 and n = 1] h by simp
  have i': "snd (postRollback big_db2 (Some 1)) = big_db2"
    using failure_changes_nothing [where db = big_db2 and t = "Some 1"] i by simp
  then have i'': "currentHeight (snd (postRollback big_db2 (Some 1))) = 2"
    by (simp add: big_db2_def)
  show ?thesis using a b c d e f g h i j a' b' c' d' e' f' g' h' i' i'' by blast
qed

section \<open>What each statement sequence leaves alone\<close>

lemma for_each_Cons_Inr:
  "for_each f c (x # xs) = Inr c' \<longleftrightarrow> (\<exists>c1. f c x = Inr c1 \<and> for_each f c1 xs = Inr c')"
  by (cases "f c x") simp_all

lemma for_each_preserves:
  assumes "\<And>c x c'. f c x = Inr c' \<Longrightarrow> g c' = g c"
    and "for_each f c xs = Inr c'"
  shows "g c' = g c"
  using assms(2)
proof (induction xs arbitrary: c)
  case Nil
  then show ?case by simp
next
  case (Cons x xs)
  then obtain c1 where "f c x = Inr c1" and "for_each f c1 xs = Inr c'"
    using for_each_Cons_Inr [of f c x xs c'] by blast
  with Cons.IH assms(1) show ?case by metis
qed

lemma set_spent_tables [simp]:
  "blocks (set_spent f t i c) = blocks c"
  "transactions (set_spent f t i c) = transactions c"
  "transaction_inputs (set_spent f t i c) = transaction_inputs c"
  "address_balances (set_spent f t i c) = address_balances c"
  by (simp_all add: set_spent_def)

lemma upsert_balance_minus_Inr:
  assumes "upsert_balance_minus a p c = Inr c'"
  shows "blocks c' = blocks c" and "transactions c' = transactions c"
    and "transaction_inputs c' = transaction_inputs c"
    and "transaction_outputs c' = transaction_outputs c"
    and "address_balances c' = (address_balances c)
           (a \<mapsto> (case address_balances c a of None \<Rightarrow> p | Some balance \<Rightarrow> balance - p))"
  using assms by (auto simp: upsert_balance_minus_def split: if_splits option.splits)

lemma upsert_balance_plus_Inr:
  assumes "upsert_balance_plus a p c = Inr c'"
  shows "blocks c' = blocks c" and "transactions c' = transactions c"
    and "transaction_inputs c' = transaction_inputs c"
    and "transaction_outputs c' = transaction_outputs c"
    and "address_balances c' = (address_balances c)
           (a \<mapsto> (case address_balances c a of None \<Rightarrow> p | Some balance \<Rightarrow> balance + p))"
  using assms by (auto simp: upsert_balance_plus_def split: if_splits option.splits)

lemma update_balance_minus_Inr:
  assumes "update_balance_minus a p c = Inr c'"
  shows "blocks c' = blocks c" and "transactions c' = transactions c"
    and "transaction_inputs c' = transaction_inputs c"
    and "transaction_outputs c' = transaction_outputs c"
    and "address_balances c' x
           = map_option (\<lambda>bal. bal - (if x = a then p else 0)) (address_balances c x)"
  using assms
  by (auto simp: update_balance_minus_def option.map_ident split: if_splits option.splits)

lemma update_balance_plus_Inr:
  assumes "update_balance_plus a p c = Inr c'"
  shows "blocks c' = blocks c" and "transactions c' = transactions c"
    and "transaction_inputs c' = transaction_inputs c"
    and "transaction_outputs c' = transaction_outputs c"
    and "address_balances c' x
           = map_option (\<lambda>bal. bal + (if x = a then p else 0)) (address_balances c x)"
  using assms
  by (auto simp: update_balance_plus_def option.map_ident split: if_splits option.splits)

lemma insert_input_Inr:
  "insert_input t i c = Inr c' \<longleftrightarrow>
     in_int4 (in_index i)
     \<and> c' = c\<lparr>transaction_inputs := transaction_inputs c @
              [\<lparr>i_transaction_id = t, i_input_tx_id = in_txId i, i_input_index = in_index i\<rparr>]\<rparr>"
  by (auto simp: insert_input_def)

lemma insert_output_Inr:
  "insert_output t io c = Inr c' \<longleftrightarrow>
     in_int4 (out_value (snd io)) \<and> in_int4 (fst io)
     \<and> c' = c\<lparr>transaction_outputs := transaction_outputs c @ [output_row_of t io]\<rparr>"
  by (auto simp: insert_output_def output_row_of_def)

lemma processInput_Inr:
  assumes "processInput t c i = Inr c'"
  shows "blocks c' = blocks c" and "transactions c' = transactions c"
    and "transaction_inputs c' = transaction_inputs c @
           [\<lparr>i_transaction_id = t, i_input_tx_id = in_txId i, i_input_index = in_index i\<rparr>]"
    and "transaction_outputs c' = transaction_outputs (set_spent True (in_txId i) (in_index i) c)"
    and "in_int4 (in_index i)"
proof -
  let ?c1 = "c\<lparr>transaction_inputs := transaction_inputs c @
              [\<lparr>i_transaction_id = t, i_input_tx_id = in_txId i, i_input_index = in_index i\<rparr>]\<rparr>"
  let ?c2 = "set_spent True (in_txId i) (in_index i) ?c1"
  from assms have ok: "in_int4 (in_index i)"
    by (cases "insert_input t i c") (simp_all add: processInput_def insert_input_Inr)
  then have ins: "insert_input t i c = Inr ?c1" by (simp add: insert_input_Inr)
  have outs: "transaction_outputs ?c2 = transaction_outputs (set_spent True (in_txId i) (in_index i) c)"
    by (simp add: set_spent_def)
  have all: "blocks c' = blocks c \<and> transactions c' = transactions c
      \<and> transaction_inputs c' = transaction_inputs c @
           [\<lparr>i_transaction_id = t, i_input_tx_id = in_txId i, i_input_index = in_index i\<rparr>]
      \<and> transaction_outputs c' = transaction_outputs (set_spent True (in_txId i) (in_index i) c)"
  proof (cases "filter (output_matches (in_txId i) (in_index i)) (transaction_outputs ?c2)")
    case Nil
    with assms ins have "c' = ?c2" by (simp add: processInput_def Let_def)
    then show ?thesis using outs by simp
  next
    case (Cons r rs)
    with assms ins have "upsert_balance_minus (o_address r) (- o_value r) ?c2 = Inr c'"
      by (simp add: processInput_def Let_def)
    note u = upsert_balance_minus_Inr [OF this]
    show ?thesis using u(1-4) outs by simp
  qed
  show "in_int4 (in_index i)" by (rule ok)
  from all show "blocks c' = blocks c" and "transactions c' = transactions c"
    and "transaction_inputs c' = transaction_inputs c @
           [\<lparr>i_transaction_id = t, i_input_tx_id = in_txId i, i_input_index = in_index i\<rparr>]"
    and "transaction_outputs c' = transaction_outputs (set_spent True (in_txId i) (in_index i) c)"
    by simp_all
qed

lemma processOutput_Inr:
  assumes "processOutput t c io = Inr c'"
  shows "blocks c' = blocks c" and "transactions c' = transactions c"
    and "transaction_inputs c' = transaction_inputs c"
    and "transaction_outputs c' = transaction_outputs c @ [output_row_of t io]"
    and "address_balances c' = (address_balances c)
           (out_address (snd io) \<mapsto> (case address_balances c (out_address (snd io)) of
               None \<Rightarrow> out_value (snd io) | Some balance \<Rightarrow> balance + out_value (snd io)))"
proof -
  let ?c1 = "c\<lparr>transaction_outputs := transaction_outputs c @ [output_row_of t io]\<rparr>"
  from assms have "insert_output t io c = Inr ?c1"
    by (cases "insert_output t io c") (auto simp: processOutput_def insert_output_Inr)
  with assms have "upsert_balance_plus (out_address (snd io)) (out_value (snd io)) ?c1 = Inr c'"
    by (simp add: processOutput_def)
  note u = upsert_balance_plus_Inr [OF this]
  from u show "blocks c' = blocks c" and "transactions c' = transactions c"
    and "transaction_inputs c' = transaction_inputs c"
    and "transaction_outputs c' = transaction_outputs c @ [output_row_of t io]"
    and "address_balances c' = (address_balances c)
           (out_address (snd io) \<mapsto> (case address_balances c (out_address (snd io)) of
               None \<Rightarrow> out_value (snd io) | Some balance \<Rightarrow> balance + out_value (snd io)))"
    by simp_all
qed

lemma for_each_processInput_tables:
  assumes "for_each (processInput t) c ins = Inr c'"
  shows "blocks c' = blocks c" and "transactions c' = transactions c"
  using assms for_each_preserves [of "processInput t" blocks c ins c']
    for_each_preserves [of "processInput t" transactions c ins c']
  by (auto dest: processInput_Inr(1,2))

lemma for_each_processOutput_tables:
  assumes "for_each (processOutput t) c outs = Inr c'"
  shows "blocks c' = blocks c" and "transactions c' = transactions c"
    and "transaction_inputs c' = transaction_inputs c"
  using assms for_each_preserves [of "processOutput t" blocks c outs c']
    for_each_preserves [of "processOutput t" transactions c outs c']
    for_each_preserves [of "processOutput t" transaction_inputs c outs c']
  by (auto dest: processOutput_Inr(1,2,3))

lemma processTransaction_Inr_tables:
  assumes "processTransaction c tx bid = Inr c'"
  shows "blocks c' = blocks c"
    and "transactions c' = transactions c @ [\<lparr>t_id = tx_id tx, t_block_id = bid\<rparr>]"
    and "tx_id tx \<notin> set (map t_id (transactions c))"
proof -
  let ?c1 = "c\<lparr>transactions := transactions c @ [\<lparr>t_id = tx_id tx, t_block_id = bid\<rparr>]\<rparr>"
  from assms have fresh: "tx_id tx \<notin> set (map t_id (transactions c))"
    by (auto simp: processTransaction_def insert_transaction_def split: if_splits)
  then have it: "insert_transaction c (tx_id tx) bid = Inr ?c1"
    by (simp add: insert_transaction_def)
  with assms obtain c2 where c2: "for_each (processInput (tx_id tx)) ?c1 (tx_inputs tx) = Inr c2"
    and c': "for_each (processOutput (tx_id tx)) c2 (indexed (tx_outputs tx)) = Inr c'"
    by (cases "for_each (processInput (tx_id tx)) ?c1 (tx_inputs tx)")
       (simp_all add: processTransaction_def)
  show "tx_id tx \<notin> set (map t_id (transactions c))" by (rule fresh)
  show "blocks c' = blocks c"
    using for_each_processInput_tables(1) [OF c2] for_each_processOutput_tables(1) [OF c'] by simp
  show "transactions c' = transactions c @ [\<lparr>t_id = tx_id tx, t_block_id = bid\<rparr>]"
    using for_each_processInput_tables(2) [OF c2] for_each_processOutput_tables(2) [OF c'] by simp
qed

section \<open>Spent outputs\<close>

lemma unflag_simps [simp]:
  "unflag (r\<lparr>o_is_spent := x\<rparr>) = unflag r"
  "o_address (unflag r) = o_address r"
  "o_value (unflag r) = o_value r"
  "output_matches t i (unflag r) = output_matches t i r"
  by (simp_all add: unflag_def output_matches_def)

lemma output_matches_reflag [simp]:
  "output_matches t i (r\<lparr>o_is_spent := x\<rparr>) = output_matches t i r"
  by (simp add: output_matches_def)

lemma same_but_flags_refl [simp]: "same_but_flags c c"
  by (simp add: same_but_flags_def)

lemma same_but_flags_reflag: "same_but_flags (reflag f s) s"
  by (simp add: same_but_flags_def reflag_def)

lemma same_but_flags_set_spent:
  "same_but_flags c c' \<Longrightarrow> same_but_flags (set_spent x t i c) (set_spent y t i c')"
proof -
  have "unflag \<circ> (\<lambda>r. if output_matches t i r then r\<lparr>o_is_spent := z\<rparr> else r) = unflag" for z
    by (rule ext) simp
  then show "same_but_flags c c' \<Longrightarrow> same_but_flags (set_spent x t i c) (set_spent y t i c')"
    by (simp add: same_but_flags_def set_spent_def)
qed

lemma filter_matches_unflag:
  "map unflag (filter (output_matches t i) rows) = filter (output_matches t i) (map unflag rows)"
  by (induction rows) simp_all

lemma same_but_flags_lookup:
  assumes "same_but_flags c c'"
  shows "map unflag (filter (output_matches t i) (transaction_outputs c))
       = map unflag (filter (output_matches t i) (transaction_outputs c'))"
  using assms by (simp add: filter_matches_unflag same_but_flags_def)

lemma same_but_flags_upsert_minus:
  assumes "same_but_flags c c'"
  shows "rel_sum (=) same_but_flags (upsert_balance_minus a p c) (upsert_balance_minus a p c')"
  using assms
  by (cases "address_balances c' a") (simp_all add: upsert_balance_minus_def same_but_flags_def)

lemma same_but_flags_upsert_plus:
  assumes "same_but_flags c c'"
  shows "rel_sum (=) same_but_flags (upsert_balance_plus a p c) (upsert_balance_plus a p c')"
  using assms
  by (cases "address_balances c' a") (simp_all add: upsert_balance_plus_def same_but_flags_def)

lemma same_but_flags_processInput:
  assumes "same_but_flags c c'"
  shows "rel_sum (=) same_but_flags (processInput t c i) (processInput t c' i)"
proof (cases "in_int4 (in_index i)")
  case False
  then show ?thesis by (simp add: processInput_def insert_input_def)
next
  case True
  let ?row = "\<lparr>i_transaction_id = t, i_input_tx_id = in_txId i, i_input_index = in_index i\<rparr>"
  let ?c2 = "set_spent True (in_txId i) (in_index i) (c\<lparr>transaction_inputs := transaction_inputs c @ [?row]\<rparr>)"
  let ?c2' = "set_spent True (in_txId i) (in_index i) (c'\<lparr>transaction_inputs := transaction_inputs c' @ [?row]\<rparr>)"
  have "same_but_flags (c\<lparr>transaction_inputs := transaction_inputs c @ [?row]\<rparr>)
      (c'\<lparr>transaction_inputs := transaction_inputs c' @ [?row]\<rparr>)"
    using assms by (simp add: same_but_flags_def)
  then have rel2: "same_but_flags ?c2 ?c2'" by (rule same_but_flags_set_spent)
  note look = same_but_flags_lookup [OF rel2, of "in_txId i" "in_index i"]
  show ?thesis
  proof (cases "filter (output_matches (in_txId i) (in_index i)) (transaction_outputs ?c2)")
    case Nil
    with look have "filter (output_matches (in_txId i) (in_index i)) (transaction_outputs ?c2') = []"
      by simp
    with Nil True rel2 show ?thesis by (simp add: processInput_def insert_input_def Let_def)
  next
    case (Cons r rs)
    with look obtain r' rs' where
      Cons': "filter (output_matches (in_txId i) (in_index i)) (transaction_outputs ?c2') = r' # rs'"
      and "unflag r = unflag r'"
      by (cases "filter (output_matches (in_txId i) (in_index i)) (transaction_outputs ?c2')") auto
    then have "o_address r = o_address r'" and "o_value r = o_value r'"
      by (metis unflag_simps(2), metis unflag_simps(3))
    with Cons Cons' True same_but_flags_upsert_minus [OF rel2, of "o_address r" "- o_value r"]
    show ?thesis by (simp add: processInput_def insert_input_def Let_def)
  qed
qed

lemma same_but_flags_processOutput:
  assumes "same_but_flags c c'"
  shows "rel_sum (=) same_but_flags (processOutput t c io) (processOutput t c' io)"
proof (cases "in_int4 (out_value (snd io)) \<and> in_int4 (fst io)")
  case False
  then show ?thesis by (auto simp: processOutput_def insert_output_def)
next
  case True
  have "same_but_flags (c\<lparr>transaction_outputs := transaction_outputs c @ [output_row_of t io]\<rparr>)
      (c'\<lparr>transaction_outputs := transaction_outputs c' @ [output_row_of t io]\<rparr>)"
    using assms by (simp add: same_but_flags_def)
  from same_but_flags_upsert_plus [OF this, of "out_address (snd io)" "out_value (snd io)"] True
  show ?thesis by (simp add: processOutput_def insert_output_def output_row_of_def)
qed

lemma same_but_flags_for_each:
  assumes "\<And>c c' x. same_but_flags c c' \<Longrightarrow> rel_sum (=) same_but_flags (f c x) (f c' x)"
    and "same_but_flags c c'"
  shows "rel_sum (=) same_but_flags (for_each f c xs) (for_each f c' xs)"
  using assms(2)
proof (induction xs arbitrary: c c')
  case Nil
  then show ?case by simp
next
  case (Cons x xs)
  from assms(1) [OF Cons.prems, of x] show ?case
    by (cases "f c x"; cases "f c' x") (simp_all add: Cons.IH)
qed

lemma same_but_flags_processTransaction:
  assumes "same_but_flags c c'"
  shows "rel_sum (=) same_but_flags (processTransaction c tx bid) (processTransaction c' tx bid)"
proof (cases "tx_id tx \<in> set (map t_id (transactions c))")
  case True
  with assms show ?thesis
    by (simp add: processTransaction_def insert_transaction_def same_but_flags_def)
next
  case False
  let ?row = "\<lparr>t_id = tx_id tx, t_block_id = bid\<rparr>"
  have rel1: "same_but_flags (c\<lparr>transactions := transactions c @ [?row]\<rparr>)
      (c'\<lparr>transactions := transactions c' @ [?row]\<rparr>)"
    using assms by (simp add: same_but_flags_def)
  have rel2: "rel_sum (=) same_but_flags
      (for_each (processInput (tx_id tx)) (c\<lparr>transactions := transactions c @ [?row]\<rparr>) (tx_inputs tx))
      (for_each (processInput (tx_id tx)) (c'\<lparr>transactions := transactions c' @ [?row]\<rparr>) (tx_inputs tx))"
    using rel1 by (intro same_but_flags_for_each same_but_flags_processInput)
  have same: "transactions c' = transactions c" using assms by (simp add: same_but_flags_def)
  show ?thesis
  proof (cases "for_each (processInput (tx_id tx)) (c\<lparr>transactions := transactions c @ [?row]\<rparr>) (tx_inputs tx)")
    case (Inl e)
    with rel2 have "for_each (processInput (tx_id tx)) (c'\<lparr>transactions := transactions c' @ [?row]\<rparr>) (tx_inputs tx) = Inl e"
      by (cases "for_each (processInput (tx_id tx)) (c'\<lparr>transactions := transactions c' @ [?row]\<rparr>) (tx_inputs tx)") simp_all
    with Inl False same show ?thesis
      by (simp add: processTransaction_def insert_transaction_def)
  next
    case (Inr d)
    with rel2 obtain d' where d': "for_each (processInput (tx_id tx)) (c'\<lparr>transactions := transactions c' @ [?row]\<rparr>) (tx_inputs tx) = Inr d'"
      and rel3: "same_but_flags d d'"
      by (cases "for_each (processInput (tx_id tx)) (c'\<lparr>transactions := transactions c' @ [?row]\<rparr>) (tx_inputs tx)") simp_all
    have "rel_sum (=) same_but_flags
        (for_each (processOutput (tx_id tx)) d (indexed (tx_outputs tx)))
        (for_each (processOutput (tx_id tx)) d' (indexed (tx_outputs tx)))"
      using rel3 by (intro same_but_flags_for_each same_but_flags_processOutput)
    with Inr d' False same show ?thesis
      by (simp add: processTransaction_def insert_transaction_def)
  qed
qed

lemma same_but_flags_processTransactions:
  assumes "same_but_flags c c'"
  shows "rel_sum (=) same_but_flags (processTransactions c txs bid) (processTransactions c' txs bid)"
  using assms
proof (induction txs arbitrary: c c')
  case Nil
  then show ?case by simp
next
  case (Cons tx txs)
  from same_but_flags_processTransaction [OF Cons.prems, of tx bid] show ?case
    by (cases "processTransaction c tx bid"; cases "processTransaction c' tx bid")
       (simp_all add: Cons.IH)
qed

lemma same_but_flags_processBlock:
  assumes "same_but_flags s s'"
  shows "fst (processBlock s b) = fst (processBlock s' b)"
proof -
  have eq: "blocks s = blocks s'" using assms by (simp add: same_but_flags_def)
  show ?thesis
  proof (cases "insert_block s (blk_id b) (blk_height b)")
    case (Inl e)
    then have "insert_block s' (blk_id b) (blk_height b) = Inl e"
      using eq by (simp add: insert_block_def split: if_splits)
    with Inl show ?thesis by (simp add: processBlock_def processBlock_unit_def)
  next
    case (Inr c)
    then have c: "c = s\<lparr>blocks := blocks s @ [\<lparr>b_id = blk_id b, b_height = blk_height b\<rparr>]\<rparr>"
      by (simp add: insert_block_def split: if_splits)
    let ?c' = "s'\<lparr>blocks := blocks s' @ [\<lparr>b_id = blk_id b, b_height = blk_height b\<rparr>]\<rparr>"
    from Inr have c': "insert_block s' (blk_id b) (blk_height b) = Inr ?c'"
      using eq by (simp add: insert_block_def split: if_splits)
    have "same_but_flags c ?c'" using assms by (simp add: c same_but_flags_def)
    from same_but_flags_processTransactions [OF this, of "blk_transactions b" "blk_id b"]
    show ?thesis using Inr c'
      by (cases "processTransactions c (blk_transactions b) (blk_id b)";
          cases "processTransactions ?c' (blk_transactions b) (blk_id b)")
         (simp_all add: processBlock_def processBlock_unit_def)
  qed
qed

lemma getInputValue_reflag [simp]: "getInputValue (reflag f s) t i = getInputValue s t i"
proof -
  have "filter (output_matches t i) (map (\<lambda>r. r\<lparr>o_is_spent := f r\<rparr>) rs)
      = map (\<lambda>r. r\<lparr>o_is_spent := f r\<rparr>) (filter (output_matches t i) rs)" for rs
    by (induction rs) simp_all
  then show ?thesis
    by (cases "filter (output_matches t i) (transaction_outputs s)")
       (simp_all add: getInputValue_def reflag_def)
qed

lemma sumInputValues_reflag [simp]: "sumInputValues (reflag f s) ins a = sumInputValues s ins a"
  by (induction ins arbitrary: a) (simp_all split: sum.split)

lemma validateInputOutputBalance_reflag [simp]:
  "validateInputOutputBalance (reflag f s) txs = validateInputOutputBalance s txs"
  by (induction txs) (simp_all split: sum.split)

lemma upsert_balance_minus_Inl:
  "upsert_balance_minus a p c = Inl e \<Longrightarrow> e = NumericValueOutOfRange"
  by (auto simp: upsert_balance_minus_def split: if_splits option.splits)

lemma processInput_Inl: "processInput t s i = Inl e \<Longrightarrow> e = NumericValueOutOfRange"
  by (auto simp: processInput_def insert_input_def Let_def split: if_splits list.splits
        dest: upsert_balance_minus_Inl)

text \<open>C10: nothing that decides whether a block is accepted reads the spent flag.  With
  the spent flags of the store replaced by any others, \<open>getInputValue\<close>, the balance check
  and \<open>validateBlock\<close> return the same result and \<open>processBlock\<close> throws or commits
  alike; and \<open>processInput\<close>, unless one of its statements fails on the range of an
  INTEGER, marks the referenced output spent whatever the flag was.  So after the first
  two example blocks, where the second has spent output 0 of \<open>t1\<close>, a third block that
  spends the same output again passes the balance check and is committed by
  \<open>POST /blocks\<close> with status 200.\<close>

theorem spent_flag_never_read:
  "getInputValue (reflag f s) txId index = getInputValue s txId index
   \<and> validateInputOutputBalance (reflag f s) txs = validateInputOutputBalance s txs
   \<and> validateBlock H (db\<lparr>pool := reflag f (pool db)\<rparr>) b = validateBlock H db b
   \<and> fst (processBlock (reflag f s) b) = fst (processBlock s b)
   \<and> (case processInput t s i of
         Inl e \<Rightarrow> e = NumericValueOutOfRange
       | Inr c \<Rightarrow> transaction_outputs c
                  = transaction_outputs (set_spent True (in_txId i) (in_index i) s))
   \<and> map o_is_spent (filter (output_matches ''t1'' 0) (transaction_outputs store2)) = [True]
   \<and> isValid (validateInputOutputBalance store2 (blk_transactions ex_block3))
   \<and> fst (processBlock store2 ex_block3) = None
   \<and> status (fst (postBlocks (\<lambda>x. x) db2 ex_block3)) = 200"
proof -
  have a: "validateBlock H (db\<lparr>pool := reflag f (pool db)\<rparr>) b = validateBlock H db b"
    by (simp add: validateBlock_def getCurrentHeight_def Let_def)
  have b: "fst (processBlock (reflag f s) b) = fst (processBlock s b)"
    by (rule same_but_flags_processBlock) (rule same_but_flags_reflag)
  have c: "map o_is_spent (filter (output_matches ''t1'' 0) (transaction_outputs store2)) = [True]"
    by code_simp
  have d: "isValid (validateInputOutputBalance store2 (blk_transactions ex_block3))"
    by code_simp
  have e: "fst (processBlock store2 ex_block3) = None" by code_simp
  have g: "status (fst (postBlocks (\<lambda>x. x) db2 ex_block3)) = 200" by code_simp
  have h: "case processInput t s i of
         Inl e \<Rightarrow> e = NumericValueOutOfRange
       | Inr c \<Rightarrow> transaction_outputs c
                  = transaction_outputs (set_spent True (in_txId i) (in_index i) s)"
    by (cases "processInput t s i") (simp_all add: processInput_Inl processInput_Inr(4))
  show ?thesis using a b c d e g h by simp
qed

section \<open>Inputs that refer to no output\<close>

lemma validateInputOutputBalance_skip_balanced:
  "tx_inputs tx = [] \<or> tx_balanced s tx \<Longrightarrow>
     validateInputOutputBalance s (tx # txs) = validateInputOutputBalance s txs"
proof (cases "tx_inputs tx = []")
  case True
  then show ?thesis by simp
next
  case False
  assume "tx_inputs tx = [] \<or> tx_balanced s tx"
  with False have bal: "tx_balanced s tx" by simp
  then have "sumInputValues s (tx_inputs tx) 0 = Inr (outputSum tx)"
    using sumInputValues_resolved [of s "tx_inputs tx" 0]
    by (simp add: tx_balanced_def outputSum_sum_list)
  with False show ?thesis by simp
qed

lemma validateInputOutputBalance_first_dangling:
  assumes "list_all (\<lambda>tx. tx_inputs tx = [] \<or> tx_balanced s tx) pre"
    and "\<not> list_all (input_resolves s) (tx_inputs tx)"
  shows "error (validateInputOutputBalance s (pre @ tx # txs)) = Some ''Invalid input reference''"
  using assms(1)
proof (induction pre)
  case Nil
  from assms(2) have ne: "tx_inputs tx \<noteq> []" by auto
  from sumInputValues_unresolved [OF assms(2), of 0]
  obtain m where "sumInputValues s (tx_inputs tx) 0 = Inl m" by blast
  with ne show ?case by simp
next
  case (Cons p pre)
  from Cons.prems have p: "tx_inputs p = [] \<or> tx_balanced s p"
    and rest: "list_all (\<lambda>tx. tx_inputs tx = [] \<or> tx_balanced s tx) pre" by simp_all
  have "validateInputOutputBalance s ((p # pre) @ tx # txs)
      = validateInputOutputBalance s (pre @ tx # txs)"
    using validateInputOutputBalance_skip_balanced [OF p, of "pre @ tx # txs"] by simp
  then show ?case using Cons.IH [OF rest] by (simp only:)
qed

lemma validateInputOutputBalance_dangling:
  assumes "\<not> list_all (\<lambda>tx. list_all (input_resolves s) (tx_inputs tx)) txs"
  shows "\<not> isValid (validateInputOutputBalance s txs)"
proof -
  from assms obtain tx where tx: "tx \<in> set txs" "\<not> list_all (input_resolves s) (tx_inputs tx)"
    by (auto simp: list_all_iff)
  then have "tx_inputs tx \<noteq> []" "\<not> tx_balanced s tx" by (auto simp: tx_balanced_def)
  with tx(1) show ?thesis
    by (auto simp: validateInputOutputBalance_isValid list_all_iff)
qed

lemma processInput_dangling:
  assumes "\<not> input_resolves s i" and "in_int4 (in_index i)"
  shows "processInput t s i = Inr (s\<lparr>transaction_inputs := transaction_inputs s @
           [\<lparr>i_transaction_id = t, i_input_tx_id = in_txId i, i_input_index = in_index i\<rparr>]\<rparr>)"
proof -
  from assms have none: "filter (output_matches (in_txId i) (in_index i)) (transaction_outputs s) = []"
    by (simp add: input_resolves_def getInputValue_def split: list.splits)
  then have same: "map (\<lambda>r. if output_matches (in_txId i) (in_index i) r then r\<lparr>o_is_spent := True\<rparr> else r)
      (transaction_outputs s) = transaction_outputs s"
    by (induction "transaction_outputs s") (auto simp: filter_empty_conv intro: map_idI)
  show ?thesis
    using none assms(2) by (simp add: processInput_def insert_input_def set_spent_def same Let_def)
qed

lemma processInput_index_out_of_range:
  "\<not> in_int4 (in_index i) \<Longrightarrow> processInput t s i = Inl NumericValueOutOfRange"
  by (simp add: processInput_def insert_input_def)

text \<open>C5 does not hold: on the empty store a block whose only transaction has an input
  referring to the missing output \<open>(t0, 0)\<close> is committed by \<open>processBlock\<close>, with its
  block, input row and credited output.\<close>

theorem dangling_input_committed:
  "getInputValue empty_store ''t0'' 0 = Inl ''Input not found: t0:0''
   \<and> fst (processBlock empty_store ex_dangling_block) = None
   \<and> blocks (snd (processBlock empty_store ex_dangling_block)) = [\<lparr>b_id = ''1t1'', b_height = 1\<rparr>]
   \<and> transaction_inputs (snd (processBlock empty_store ex_dangling_block))
       = [\<lparr>i_transaction_id = ''t1'', i_input_tx_id = ''t0'', i_input_index = 0\<rparr>]
   \<and> getAddressBalance (snd (processBlock empty_store ex_dangling_block)) ''A'' = 5"
  by code_simp

text \<open>C5, amended: for an input whose referenced output is not in the store,
  \<open>processInput\<close> inserts the input row and changes nothing else, and the unit goes on;
  only an index that is no INTEGER makes the insertion, and with it the unit, fail.
  A block with such an input is stopped before \<open>processBlock\<close>: the balance check fails,
  with the error \<open>Invalid input reference\<close> when every transaction before the first one
  with such an input is exempt or balanced, and \<open>POST /blocks\<close> replies 400 and leaves
  the \<open>DatabaseManager\<close> as it was.\<close>

theorem dangling_input_skipped_or_rejected:
  "(\<not> input_resolves s i \<and> in_int4 (in_index i) \<longrightarrow>
      processInput t s i = Inr (s\<lparr>transaction_inputs := transaction_inputs s @
        [\<lparr>i_transaction_id = t, i_input_tx_id = in_txId i, i_input_index = in_index i\<rparr>]\<rparr>))
   \<and> (\<not> in_int4 (in_index i) \<longrightarrow> processInput t s i = Inl NumericValueOutOfRange)
   \<and> (list_all (\<lambda>tx. tx_inputs tx = [] \<or> tx_balanced s tx) pre
        \<and> \<not> list_all (input_resolves s) (tx_inputs tx) \<longrightarrow>
        error (validateInputOutputBalance s (pre @ tx # txs)) = Some ''Invalid input reference'')
   \<and> (\<not> list_all (\<lambda>tx. list_all (input_resolves (pool db)) (tx_inputs tx)) (blk_transactions b) \<longrightarrow>
        \<not> isValid (validateInputOutputBalance (pool db) (blk_transactions b))
        \<and> status (fst (postBlocks H db b)) = 400
        \<and> snd (postBlocks H db b) = db)"
proof -
  have "\<not> isValid (validateBlock H db b)"
    if "\<not> isValid (validateInputOutputBalance (pool db) (blk_transactions b))"
    using that validateBlock_needs_balance [of H db b] by blast
  then show ?thesis
    using processInput_dangling [of s i t] processInput_index_out_of_range [of i t s]
      validateInputOutputBalance_first_dangling [of s pre tx txs]
      validateInputOutputBalance_dangling [of "pool db" "blk_transactions b"]
    by (auto simp: postBlocks_invalid)
qed

theorem dangling_input_skipped_or_rejected_witness:
  "\<not> input_resolves empty_store \<lparr>in_txId = ''t0'', in_index = 0\<rparr>
   \<and> processInput ''t1'' empty_store \<lparr>in_txId = ''t0'', in_index = 0\<rparr>
       = Inr (empty_store\<lparr>transaction_inputs :=
           [\<lparr>i_transaction_id = ''t1'', i_input_tx_id = ''t0'', i_input_index = 0\<rparr>]\<rparr>)
   \<and> processInput ''t1'' empty_store \<lparr>in_txId = ''t0'', in_index = 3000000000\<rparr>
       = Inl NumericValueOutOfRange
   \<and> error (validateInputOutputBalance empty_store (blk_transactions ex_dangling_block))
        = Some ''Invalid input reference''
   \<and> status (fst (postBlocks (\<lambda>x. x) db0 ex_dangling_block)) = 400
   \<and> snd (postBlocks (\<lambda>x. x) db0 ex_dangling_block) = db0"
proof -
  let ?i = "\<lparr>in_txId = ''t0'', in_index = 0\<rparr>"
  have nr: "\<not> input_resolves empty_store ?i"
    by (simp add: input_resolves_def getInputValue_def empty_store_def in_int4_def)
  have "in_int4 (in_index ?i)" by (simp add: in_int4_def)
  then have "processInput ''t1'' empty_store ?i = Inr (empty_store\<lparr>transaction_inputs := transaction_inputs empty_store @
        [\<lparr>i_transaction_id = ''t1'', i_input_tx_id = in_txId ?i, i_input_index = in_index ?i\<rparr>]\<rparr>)"
    using dangling_input_skipped_or_rejected [of empty_store ?i "''t1''"] nr by blast
  then have p: "processInput ''t1'' empty_store ?i
       = Inr (empty_store\<lparr>transaction_inputs :=
           [\<lparr>i_transaction_id = ''t1'', i_input_tx_id = ''t0'', i_input_index = 0\<rparr>]\<rparr>)"
    by (simp add: empty_store_def)
  have "\<not> in_int4 (in_index \<lparr>in_txId = ''t0'', in_index = 3000000000\<rparr>)" by (simp add: in_int4_def)
  then have q: "processInput ''t1'' empty_store \<lparr>in_txId = ''t0'', in_index = 3000000000\<rparr>
       = Inl NumericValueOutOfRange"
    using dangling_input_skipped_or_rejected [where i = "\<lparr>in_txId = ''t0'', in_index = 3000000000\<rparr>"
        and t = "''t1''" and s = empty_store] by blast
  let ?tx = "\<lparr>tx_id = ''t1'', tx_inputs = [?i], tx_outputs = [\<lparr>out_address = ''A'', out_value = 5\<rparr>]\<rparr>"
  have txs: "blk_transactions ex_dangling_block = [] @ ?tx # []"
    by (simp add: ex_dangling_block_def)
  have pre: "list_all (\<lambda>tx. tx_inputs tx = [] \<or> tx_balanced empty_store tx) []" by simp
  have nr': "\<not> list_all (input_resolves empty_store) (tx_inputs ?tx)" using nr by simp
  have "error (validateInputOutputBalance empty_store ([] @ ?tx # [])) = Some ''Invalid input reference''"
    using dangling_input_skipped_or_rejected [where s = empty_store and pre = "[]"
        and tx = ?tx and txs = "[]"] pre nr'
    by blast
  then have e: "error (validateInputOutputBalance empty_store (blk_transactions ex_dangling_block))
        = Some ''Invalid input reference''"
    by (simp only: txs)
  have nl: "\<not> list_all (\<lambda>tx. list_all (input_resolves (pool db0)) (tx_inputs tx)) (blk_transactions ex_dangling_block)"
    using nr by (simp add: ex_dangling_block_def db0_def)
  have r: "status (fst (postBlocks (\<lambda>x. x) db0 ex_dangling_block)) = 400
      \<and> snd (postBlocks (\<lambda>x. x) db0 ex_dangling_block) = db0"
    using dangling_input_skipped_or_rejected [where db = db0 and b = ex_dangling_block and H = "\<lambda>x. x"] nl
    by blast
  show ?thesis using nr p q e r by blast
qed

section \<open>Spending an output\<close>

lemma processInput_balance_existing:
  assumes "filter (output_matches (in_txId i) (in_index i)) (transaction_outputs s) = r # rs"
    and "address_balances s (o_address r) = Some bal"
    and "processInput t s i = Inr c"
  shows "address_balances c (o_address r) = Some (bal + o_value r)"
proof -
  let ?c2 = "set_spent True (in_txId i) (in_index i)
      (s\<lparr>transaction_inputs := transaction_inputs s @
          [\<lparr>i_transaction_id = t, i_input_tx_id = in_txId i, i_input_index = in_index i\<rparr>]\<rparr>)"
  have "filter (output_matches (in_txId i) (in_index i))
      (map (\<lambda>r. if output_matches (in_txId i) (in_index i) r then r\<lparr>o_is_spent := True\<rparr> else r) rows)
      = map (\<lambda>r. r\<lparr>o_is_spent := True\<rparr>) (filter (output_matches (in_txId i) (in_index i)) rows)" for rows
    by (induction rows) simp_all
  then have look: "filter (output_matches (in_txId i) (in_index i)) (transaction_outputs ?c2)
      = r\<lparr>o_is_spent := True\<rparr> # map (\<lambda>r. r\<lparr>o_is_spent := True\<rparr>) rs"
    using assms(1) by (simp add: set_spent_def)
  from processInput_Inr(5) [OF assms(3)] have "insert_input t i s = Inr
      (s\<lparr>transaction_inputs := transaction_inputs s @
          [\<lparr>i_transaction_id = t, i_input_tx_id = in_txId i, i_input_index = in_index i\<rparr>]\<rparr>)"
    by (simp add: insert_input_Inr)
  with assms(3) look have "upsert_balance_minus (o_address r) (- o_value r) ?c2 = Inr c"
    by (simp add: processInput_def Let_def)
  from upsert_balance_minus_Inr(5) [OF this] assms(2) show ?thesis by simp
qed

text \<open>C2, evaluated on the example: after block 1 has paid 100 to \<open>A\<close>, block 2 passes the
  balance check and spends that output; the output's row is marked spent, and the balance
  of \<open>A\<close> is 200, not 0.  The upsert gets the parameter \<open>-value\<close> and, as the row of \<open>A\<close>
  exists, sets the balance to \<open>balance - (-value)\<close>.\<close>

theorem spending_adds_to_balance:
  "getAddressBalance store1 ''A'' = 100
   \<and> isValid (validateInputOutputBalance store1 (blk_transactions ex_block2))
   \<and> fst (processBlock store1 ex_block2) = None
   \<and> map o_is_spent (filter (output_matches ''t1'' 0) (transaction_outputs store2)) = [True]
   \<and> getAddressBalance store2 ''A'' = 200
   \<and> upsert_balance_minus ''A'' (- 100) store1
       = Inr (store1\<lparr>address_balances := (address_balances store1)(''A'' \<mapsto> 200)\<rparr>)"
proof -
  have a: "getAddressBalance store1 ''A'' = 100" by code_simp
  have b: "isValid (validateInputOutputBalance store1 (blk_transactions ex_block2))" by code_simp
  have c: "fst (processBlock store1 ex_block2) = None" by code_simp
  have d: "map o_is_spent (filter (output_matches ''t1'' 0) (transaction_outputs store2)) = [True]"
    by code_simp
  have e: "getAddressBalance store2 ''A'' = 200" by code_simp
  have "address_balances store1 ''A'' = Some 100" by code_simp
  then have f: "upsert_balance_minus ''A'' (- 100) store1
      = Inr (store1\<lparr>address_balances := (address_balances store1)(''A'' \<mapsto> 200)\<rparr>)"
    by (simp add: upsert_balance_minus_def in_int4_def)
  show ?thesis using a b c d e f by blast
qed

text \<open>C3, evaluated on the example: after block 1 every balance is the sum of the unspent
  outputs of its address; after block 2 the balance of \<open>A\<close> is 200 and \<open>A\<close> has no unspent
  output.  An address without a balance row has balance 0.\<close>

theorem balance_invariant_broken_by_spend:
  "(\<forall>a. getAddressBalance store1 a = unspent_sum store1 a)
   \<and> fst (processBlock store1 ex_block2) = None
   \<and> getAddressBalance store2 ''A'' = 200
   \<and> unspent_sum store2 ''A'' = 0
   \<and> getAddressBalance empty_store a = 0"
proof -
  have s1: "transaction_outputs store1 = [\<lparr>o_transaction_id = ''t1'', o_address = ''A'', o_value = 100,
      o_output_index = 0, o_is_spent = False\<rparr>]" by code_simp
  have "address_balances store1 = [''A'' \<mapsto> 100]"
    by (simp add: store1_def processBlock_def processBlock_unit_def insert_block_def
        processTransaction_def insert_transaction_def ex_block1_def empty_store_def
        indexed_def processOutput_def insert_output_def upsert_balance_plus_def in_int4_def)
  then have a: "\<forall>a. getAddressBalance store1 a = unspent_sum store1 a"
    by (simp add: getAddressBalance_def unspent_sum_def s1)
  have b: "fst (processBlock store1 ex_block2) = None" by code_simp
  have c: "getAddressBalance store2 ''A'' = 200" by code_simp
  have d: "unspent_sum store2 ''A'' = 0" by code_simp
  have e: "getAddressBalance empty_store a = 0" by (simp add: getAddressBalance_def empty_store_def)
  show ?thesis using a b c d e by blast
qed

text \<open>C1, evaluated on the example: rolling back block 2 commits and leaves \<open>A\<close> with
  300, not with the 100 it had after block 1, and applying block 2 again gives 400, not
  the 200 of the first application.  The four tables are back as they were after
  block 1.\<close>

theorem rollback_not_inverse_on_balances:
  "getAddressBalance store1 ''A'' = 100
   \<and> getAddressBalance store2 ''A'' = 200
   \<and> fst (rollbackToHeight store2 1) = None
   \<and> getAddressBalance (snd (rollbackToHeight store2 1)) ''A'' = 300
   \<and> fst (processBlock (snd (rollbackToHeight store2 1)) ex_block2) = None
   \<and> getAddressBalance (snd (processBlock (snd (rollbackToHeight store2 1)) ex_block2)) ''A'' = 400
   \<and> blocks (snd (rollbackToHeight store2 1)) = blocks store1
   \<and> transactions (snd (rollbackToHeight store2 1)) = transactions store1
   \<and> transaction_inputs (snd (rollbackToHeight store2 1)) = transaction_inputs store1
   \<and> transaction_outputs (snd (rollbackToHeight store2 1)) = transaction_outputs store1"
  by code_simp

section \<open>The order of a rollback\<close>



lemma processTransactions_rows:
  "processTransactions c txs bid = Inr c' \<Longrightarrow>
     transactions c' = transactions c @ map (\<lambda>tx. \<lparr>t_id = tx_id tx, t_block_id = bid\<rparr>) txs
     \<and> blocks c' = blocks c"
proof (induction txs arbitrary: c)
  case Nil
  then show ?case by simp
next
  case (Cons tx txs)
  from Cons.prems obtain d where d: "processTransaction c tx bid = Inr d"
    and rest: "processTransactions d txs bid = Inr c'"
    by (cases "processTransaction c tx bid") simp_all
  from Cons.IH [OF rest] processTransaction_Inr_tables(1,2) [OF d] show ?case by simp
qed

lemma processBlock_rows:
  assumes "processBlock s b = (None, s')"
  shows "blocks s' = blocks s @ [\<lparr>b_id = blk_id b, b_height = blk_height b\<rparr>]"
    and "transactions s' = transactions s @ map (\<lambda>tx. \<lparr>t_id = tx_id tx, t_block_id = blk_id b\<rparr>) (blk_transactions b)"
    and "blk_id b \<notin> set (map b_id (blocks s))"
    and "blk_height b \<notin> set (map b_height (blocks s))"
proof -
  from assms have u: "processBlock_unit s b = Inr s'"
    by (cases "processBlock_unit s b") (simp_all add: processBlock_def)
  then obtain c where c: "insert_block s (blk_id b) (blk_height b) = Inr c"
    and txs: "processTransactions c (blk_transactions b) (blk_id b) = Inr s'"
    by (cases "insert_block s (blk_id b) (blk_height b)") (simp_all add: processBlock_unit_def)
  from c have fresh: "blk_id b \<notin> set (map b_id (blocks s))" "blk_height b \<notin> set (map b_height (blocks s))"
    and cb: "blocks c = blocks s @ [\<lparr>b_id = blk_id b, b_height = blk_height b\<rparr>]"
    and ct: "transactions c = transactions s"
    by (auto simp: insert_block_def split: if_splits)
  from fresh show "blk_id b \<notin> set (map b_id (blocks s))"
    and "blk_height b \<notin> set (map b_height (blocks s))" by simp_all
  from processTransactions_rows [OF txs] cb ct
  show "blocks s' = blocks s @ [\<lparr>b_id = blk_id b, b_height = blk_height b\<rparr>]"
    and "transactions s' = transactions s @ map (\<lambda>tx. \<lparr>t_id = tx_id tx, t_block_id = blk_id b\<rparr>) (blk_transactions b)"
    by simp_all
qed

lemma transactions_of_block_commit_order:
  assumes "processBlock s b = (None, s')"
    and "blk_id b \<notin> set (map t_block_id (transactions s))"
  shows "transactions_of_block s' (blk_id b) = map tx_id (blk_transactions b)"
proof -
  have "filter (\<lambda>r. t_block_id r = blk_id b) (transactions s) = []"
    using assms(2) by (force simp: filter_empty_conv)
  moreover have "map t_id (filter (\<lambda>r. t_block_id r = bid) (map (\<lambda>tx. \<lparr>t_id = tx_id tx, t_block_id = bid\<rparr>) txs))
      = map tx_id txs" for bid and txs :: "Transaction list"
    by (induction txs) simp_all
  ultimately show ?thesis
    using processBlock_rows(2) [OF assms(1)] by (simp add: transactions_of_block_def)
qed

section \<open>What undoing a transaction does\<close>


lemma undoOutput_Inr:
  assumes "undoOutput c r = Inr c'"
  shows "blocks c' = blocks c" and "transactions c' = transactions c"
    and "transaction_inputs c' = transaction_inputs c"
    and "transaction_outputs c' = transaction_outputs c"
    and "address_balances c' a
           = map_option (\<lambda>bal. bal - (if o_address r = a then o_value r else 0)) (address_balances c a)"
  using update_balance_minus_Inr [of "o_address r" "o_value r" c c'] assms
  by (simp_all add: undoOutput_def eq_commute [of a])

lemma for_each_undoOutput_tables:
  assumes "for_each undoOutput c rows = Inr c'"
  shows "blocks c' = blocks c" and "transactions c' = transactions c"
    and "transaction_inputs c' = transaction_inputs c"
    and "transaction_outputs c' = transaction_outputs c"
  using assms for_each_preserves [of undoOutput blocks c rows c']
    for_each_preserves [of undoOutput transactions c rows c']
    for_each_preserves [of undoOutput transaction_inputs c rows c']
    for_each_preserves [of undoOutput transaction_outputs c rows c']
  by (auto dest: undoOutput_Inr(1-4))

lemma for_each_undoOutput_balances:
  "for_each undoOutput c rows = Inr c' \<Longrightarrow>
     address_balances c' a =
       map_option (\<lambda>bal. bal - sum_list (map o_value (filter (\<lambda>r. o_address r = a) rows)))
         (address_balances c a)"
proof (induction rows arbitrary: c)
  case Nil
  then show ?case by (simp add: option.map_ident)
next
  case (Cons r rows)
  then obtain c1 where c1: "undoOutput c r = Inr c1" and rest: "for_each undoOutput c1 rows = Inr c'"
    using for_each_Cons_Inr [of undoOutput c r rows c'] by blast
  show ?case
    by (cases "address_balances c a") (simp_all add: Cons.IH [OF rest] undoOutput_Inr(5) [OF c1])
qed

lemma filter_matches_map_flag:
  "filter (output_matches t i) (map (\<lambda>r. r\<lparr>o_is_spent := h r\<rparr>) rows)
     = map (\<lambda>r. r\<lparr>o_is_spent := h r\<rparr>) (filter (output_matches t i) rows)"
  by (induction rows) simp_all

lemma input_credit_flags:
  assumes "transaction_outputs c' = map (\<lambda>r. r\<lparr>o_is_spent := h r\<rparr>) (transaction_outputs c)"
  shows "input_credit c' a inp = input_credit c a inp"
  by (cases "filter (output_matches (i_input_tx_id inp) (i_input_index inp)) (transaction_outputs c)")
     (simp_all add: input_credit_def referenced_output_def assms filter_matches_map_flag)

lemma set_spent_as_flags:
  "transaction_outputs (set_spent f t i c)
     = map (\<lambda>r. r\<lparr>o_is_spent := (if output_matches t i r then f else o_is_spent r)\<rparr>) (transaction_outputs c)"
  by (simp add: set_spent_def cong: if_cong)

lemma undoInput_Inr:
  assumes "undoInput c inp = Inr c'"
  shows "blocks c' = blocks c" and "transactions c' = transactions c"
    and "transaction_inputs c' = transaction_inputs c"
    and "transaction_outputs c'
           = map (\<lambda>r. r\<lparr>o_is_spent := (if output_matches (i_input_tx_id inp) (i_input_index inp) r
                                         then False else o_is_spent r)\<rparr>) (transaction_outputs c)"
    and "address_balances c' a
           = map_option (\<lambda>bal. bal + input_credit c a inp) (address_balances c a)"
proof -
  let ?m = "output_matches (i_input_tx_id inp) (i_input_index inp)"
  from assms have ok: "in_int4 (i_input_index inp)"
    by (simp add: undoInput_def split: if_splits)
  have all: "blocks c' = blocks c \<and> transactions c' = transactions c
    \<and> transaction_inputs c' = transaction_inputs c
    \<and> transaction_outputs c'
           = map (\<lambda>r. r\<lparr>o_is_spent := (if ?m r then False else o_is_spent r)\<rparr>) (transaction_outputs c)
    \<and> address_balances c' a
           = map_option (\<lambda>bal. bal + input_credit c a inp) (address_balances c a)"
  proof (cases "filter ?m (transaction_outputs c)")
    case Nil
    then have "\<forall>r \<in> set (transaction_outputs c). \<not> ?m r"
      by (simp add: filter_empty_conv)
    then have "map (\<lambda>r. r\<lparr>o_is_spent := (if ?m r then False else o_is_spent r)\<rparr>) (transaction_outputs c)
        = transaction_outputs c"
      by (intro map_idI) simp
    moreover from Nil assms ok have "c' = c" by (simp add: undoInput_def)
    ultimately show ?thesis
      using Nil by (simp add: input_credit_def referenced_output_def option.map_ident)
  next
    case (Cons r rs)
    with assms ok have "update_balance_plus (o_address r) (o_value r)
        (set_spent False (i_input_tx_id inp) (i_input_index inp) c) = Inr c'"
      by (simp add: undoInput_def)
    note u = update_balance_plus_Inr(1-4) [OF this] update_balance_plus_Inr(5) [OF this, of a]
    have "input_credit c a inp = (if a = o_address r then o_value r else 0)"
      using Cons by (auto simp: input_credit_def referenced_output_def)
    then show ?thesis using u by (simp add: set_spent_as_flags)
  qed
  from all show "blocks c' = blocks c" and "transactions c' = transactions c"
    and "transaction_inputs c' = transaction_inputs c"
    and "transaction_outputs c'
           = map (\<lambda>r. r\<lparr>o_is_spent := (if ?m r then False else o_is_spent r)\<rparr>) (transaction_outputs c)"
    and "address_balances c' a
           = map_option (\<lambda>bal. bal + input_credit c a inp) (address_balances c a)"
    by simp_all
qed

lemma for_each_undoInput_tables:
  assumes "for_each undoInput c ins = Inr c'"
  shows "blocks c' = blocks c" and "transactions c' = transactions c"
    and "transaction_inputs c' = transaction_inputs c"
  using assms for_each_preserves [of undoInput blocks c ins c']
    for_each_preserves [of undoInput transactions c ins c']
    for_each_preserves [of undoInput transaction_inputs c ins c']
  by (auto dest: undoInput_Inr(1-3))

lemma restored_Cons:
  "restored (inp # ins) r \<longleftrightarrow>
     output_matches (i_input_tx_id inp) (i_input_index inp) r \<or> restored ins r"
  by (simp add: restored_def)

lemma restored_flag [simp]: "restored ins (r\<lparr>o_is_spent := x\<rparr>) = restored ins r"
  by (simp add: restored_def)

lemma for_each_undoInput_outputs:
  "for_each undoInput c ins = Inr c' \<Longrightarrow>
     transaction_outputs c'
       = map (\<lambda>r. r\<lparr>o_is_spent := (if restored ins r then False else o_is_spent r)\<rparr>) (transaction_outputs c)"
proof (induction ins arbitrary: c)
  case Nil
  then show ?case by (simp add: restored_def)
next
  case (Cons inp ins)
  then obtain c1 where c1: "undoInput c inp = Inr c1" and rest: "for_each undoInput c1 ins = Inr c'"
    using for_each_Cons_Inr [of undoInput c inp ins c'] by blast
  show ?case
    by (simp add: Cons.IH [OF rest] undoInput_Inr(4) [OF c1] restored_Cons)
qed

lemma for_each_undoInput_balances:
  "for_each undoInput c ins = Inr c' \<Longrightarrow>
     address_balances c' a =
       map_option (\<lambda>bal. bal + sum_list (map (input_credit c a) ins)) (address_balances c a)"
proof (induction ins arbitrary: c)
  case Nil
  then show ?case by (simp add: option.map_ident)
next
  case (Cons inp ins)
  then obtain c1 where c1: "undoInput c inp = Inr c1" and rest: "for_each undoInput c1 ins = Inr c'"
    using for_each_Cons_Inr [of undoInput c inp ins c'] by blast
  have "input_credit c1 a x = input_credit c a x" for x
    by (rule input_credit_flags) (rule undoInput_Inr(4) [OF c1])
  then show ?case
    by (cases "address_balances c a") (simp_all add: Cons.IH [OF rest] undoInput_Inr(5) [OF c1])
qed

lemma input_credit_same_outputs:
  "transaction_outputs c' = transaction_outputs c \<Longrightarrow> input_credit c' a = input_credit c a"
  by (rule ext) (simp add: input_credit_def referenced_output_def)

lemma rollbackTransaction_steps:
  "rollbackTransaction c t =
     (case for_each undoOutput c (filter (\<lambda>r. o_transaction_id r = t) (transaction_outputs c)) of
        Inl e \<Rightarrow> Inl e
      | Inr c1 \<Rightarrow>
          (case for_each undoInput c1 (filter (\<lambda>r. i_transaction_id r = t) (transaction_inputs c)) of
             Inl e \<Rightarrow> Inl e
           | Inr c2 \<Rightarrow> Inr (delete_transaction_rows t c2)))"
proof (cases "for_each undoOutput c (filter (\<lambda>r. o_transaction_id r = t) (transaction_outputs c))")
  case (Inl e)
  then show ?thesis by (simp add: rollbackTransaction_def)
next
  case (Inr c1)
  then show ?thesis
    by (simp add: rollbackTransaction_def Let_def for_each_undoOutput_tables(3) [OF Inr])
qed

lemma rollbackTransaction_effect:
  assumes "rollbackTransaction c t = Inr d"
  shows "blocks d = blocks c"
    and "transactions d = filter (\<lambda>r. t_id r \<noteq> t) (transactions c)"
    and "transaction_inputs d = filter (\<lambda>r. i_transaction_id r \<noteq> t) (transaction_inputs c)"
    and "transaction_outputs d =
     filter (\<lambda>r. o_transaction_id r \<noteq> t)
       (map (\<lambda>r. r\<lparr>o_is_spent := (if restored (filter (\<lambda>r. i_transaction_id r = t) (transaction_inputs c)) r
                                    then False else o_is_spent r)\<rparr>) (transaction_outputs c))"
    and "address_balances d a =
     map_option (\<lambda>bal. bal - undone_debit c t a + undone_credit c t a) (address_balances c a)"
proof -
  let ?outs = "filter (\<lambda>r. o_transaction_id r = t) (transaction_outputs c)"
  let ?ins = "filter (\<lambda>r. i_transaction_id r = t) (transaction_inputs c)"
  from assms obtain c1 where c1: "for_each undoOutput c ?outs = Inr c1"
    by (cases "for_each undoOutput c ?outs") (simp_all add: rollbackTransaction_steps)
  with assms obtain c2 where c2: "for_each undoInput c1 ?ins = Inr c2"
    and d: "d = delete_transaction_rows t c2"
    by (cases "for_each undoInput c1 ?ins") (auto simp: rollbackTransaction_steps)
  note t1 = for_each_undoOutput_tables [OF c1]
  note t2 = for_each_undoInput_tables [OF c2]
  show "blocks d = blocks c"
    and "transactions d = filter (\<lambda>r. t_id r \<noteq> t) (transactions c)"
    and "transaction_inputs d = filter (\<lambda>r. i_transaction_id r \<noteq> t) (transaction_inputs c)"
    by (simp_all add: d delete_transaction_rows_def t1 t2)
  show "transaction_outputs d =
     filter (\<lambda>r. o_transaction_id r \<noteq> t)
       (map (\<lambda>r. r\<lparr>o_is_spent := (if restored ?ins r then False else o_is_spent r)\<rparr>) (transaction_outputs c))"
    by (simp add: d delete_transaction_rows_def for_each_undoInput_outputs [OF c2] t1)
  have debit: "sum_list (map o_value (filter (\<lambda>x. o_transaction_id x = t \<and> o_address x = a)
      (transaction_outputs c))) = undone_debit c t a"
    by (simp add: undone_debit_def)
  have credit: "sum_list (map (input_credit c1 a) ?ins) = undone_credit c t a"
    by (simp add: undone_credit_def input_credit_same_outputs [OF t1(4)])
  have "address_balances d a = address_balances c2 a"
    by (simp add: d delete_transaction_rows_def)
  then show "address_balances d a =
     map_option (\<lambda>bal. bal - undone_debit c t a + undone_credit c t a) (address_balances c a)"
    by (cases "address_balances c a")
       (simp_all add: for_each_undoInput_balances [OF c2, of a]
          for_each_undoOutput_balances [OF c1, of a] debit credit)
qed

lemma for_each_rollbackTransaction_blocks:
  "for_each rollbackTransaction c ts = Inr c' \<Longrightarrow> blocks c' = blocks c"
  using for_each_preserves [of rollbackTransaction blocks c ts c']
  by (auto dest: rollbackTransaction_effect(1))

lemma rollbackBlock_steps:
  "rollbackBlock c row =
     (case for_each rollbackTransaction c (transactions_of_block c (b_id row)) of
        Inl e \<Rightarrow> Inl e
      | Inr c1 \<Rightarrow> Inr (c1\<lparr>blocks := filter (\<lambda>r. b_id r \<noteq> b_id row) (blocks c)\<rparr>))"
  by (cases "for_each rollbackTransaction c (transactions_of_block c (b_id row))")
     (simp_all add: rollbackBlock_def for_each_rollbackTransaction_blocks)










section \<open>Blocks that only create value\<close>

lemma processOutput_balance:
  assumes "processOutput t c io = Inr c'"
  shows "getAddressBalance c' x =
     getAddressBalance c x + (if x = out_address (snd io) then out_value (snd io) else 0)"
    and "address_balances c' x = None \<Longrightarrow> address_balances c x = None"
  using processOutput_Inr(5) [OF assms]
  by (auto simp: getAddressBalance_def split: option.splits if_splits)

lemma for_each_processOutput_rows:
  "for_each (processOutput t) c ios = Inr c' \<Longrightarrow>
     transaction_outputs c' = transaction_outputs c @ map (output_row_of t) ios
     \<and> getAddressBalance c' x = getAddressBalance c x
          + sum_list (map o_value (filter (\<lambda>r. o_address r = x) (map (output_row_of t) ios)))
     \<and> (address_balances c' x = None \<longrightarrow> address_balances c x = None)"
proof (induction ios arbitrary: c)
  case Nil
  then show ?case by simp
next
  case (Cons io ios)
  then obtain c1 where c1: "processOutput t c io = Inr c1"
    and rest: "for_each (processOutput t) c1 ios = Inr c'"
    using for_each_Cons_Inr [of "processOutput t" c io ios c'] by blast
  note ih = Cons.IH [OF rest]
  note step = processOutput_Inr(4) [OF c1] processOutput_balance(1) [OF c1, of x]
    processOutput_balance(2) [OF c1, of x]
  show ?case using ih step by (simp add: output_row_of_def)
qed

lemma processTransaction_no_inputs:
  assumes "processTransaction c tx bid = Inr c'" and "tx_inputs tx = []"
  shows "transaction_inputs c' = transaction_inputs c"
    and "transaction_outputs c' = transaction_outputs c @ output_rows_of tx"
    and "getAddressBalance c' x = getAddressBalance c x
           + sum_list (map o_value (filter (\<lambda>r. o_address r = x) (output_rows_of tx)))"
    and "address_balances c' x = None \<Longrightarrow> address_balances c x = None"
proof -
  let ?c1 = "c\<lparr>transactions := transactions c @ [\<lparr>t_id = tx_id tx, t_block_id = bid\<rparr>]\<rparr>"
  from assms have c': "for_each (processOutput (tx_id tx)) ?c1 (indexed (tx_outputs tx)) = Inr c'"
    by (auto simp: processTransaction_def insert_transaction_def split: if_splits)
  note rows = for_each_processOutput_rows [OF c', of x]
  show "transaction_inputs c' = transaction_inputs c"
    using for_each_processOutput_tables(3) [OF c'] by simp
  show "transaction_outputs c' = transaction_outputs c @ output_rows_of tx"
    using rows by (simp add: output_rows_of_def)
  show "getAddressBalance c' x = getAddressBalance c x
           + sum_list (map o_value (filter (\<lambda>r. o_address r = x) (output_rows_of tx)))"
    using rows by (simp add: output_rows_of_def getAddressBalance_def)
  show "address_balances c' x = None \<Longrightarrow> address_balances c x = None"
    using rows by simp
qed

lemma processTransactions_no_inputs:
  assumes "processTransactions c txs bid = Inr c'" and "list_all (\<lambda>tx. tx_inputs tx = []) txs"
  shows "transaction_inputs c' = transaction_inputs c
    \<and> transaction_outputs c' = transaction_outputs c @ concat (map output_rows_of txs)
    \<and> getAddressBalance c' x = getAddressBalance c x
           + sum_list (map o_value (filter (\<lambda>r. o_address r = x) (concat (map output_rows_of txs))))
    \<and> (address_balances c' x = None \<longrightarrow> address_balances c x = None)
    \<and> distinct (map tx_id txs)
    \<and> set (map tx_id txs) \<inter> set (map t_id (transactions c)) = {}"
  using assms
proof (induction txs arbitrary: c)
  case Nil
  then show ?case by simp
next
  case (Cons tx txs)
  from Cons.prems obtain d where d: "processTransaction c tx bid = Inr d"
    and rest: "processTransactions d txs bid = Inr c'"
    by (cases "processTransaction c tx bid") simp_all
  from Cons.prems have ni: "tx_inputs tx = []" and nis: "list_all (\<lambda>tx. tx_inputs tx = []) txs"
    by simp_all
  note step = processTransaction_no_inputs [OF d ni] processTransaction_Inr_tables [OF d]
  note ih = Cons.IH [OF rest nis]
  show ?case
    using ih step(1,2,6,7) step(3) [of x] step(4) [of x]
    by auto
qed

lemma sum_list_filter_split:
  "sum_list (map f (filter (\<lambda>r. k r = t \<and> P r) xs))
     + sum_list (map f (filter (\<lambda>r. k r \<in> S \<and> P r) (filter (\<lambda>r. k r \<noteq> t) xs)))
     = sum_list (map f (filter (\<lambda>r. k r \<in> insert t S \<and> P r) xs))" for f :: "'a \<Rightarrow> int"
  by (induction xs) auto

lemma rollbackTransaction_no_input_rows:
  assumes "rollbackTransaction c t = Inr d"
    and "filter (\<lambda>r. i_transaction_id r = t) (transaction_inputs c) = []"
  shows "transaction_inputs d = transaction_inputs c"
    and "transaction_outputs d = filter (\<lambda>r. o_transaction_id r \<noteq> t) (transaction_outputs c)"
    and "address_balances d a = map_option (\<lambda>bal. bal - undone_debit c t a) (address_balances c a)"
proof -
  note effect = rollbackTransaction_effect(3,4) [OF assms(1)]
    rollbackTransaction_effect(5) [OF assms(1), of a]
  from assms(2) have "\<forall>r \<in> set (transaction_inputs c). i_transaction_id r \<noteq> t"
    by (simp add: filter_empty_conv)
  then show "transaction_inputs d = transaction_inputs c"
    by (simp add: effect(1))
  have "map (\<lambda>r. r\<lparr>o_is_spent := o_is_spent r\<rparr>) (transaction_outputs c) = transaction_outputs c"
    by (intro map_idI) simp
  then show "transaction_outputs d = filter (\<lambda>r. o_transaction_id r \<noteq> t) (transaction_outputs c)"
    by (simp add: effect(2) assms(2) restored_def)
  show "address_balances d a = map_option (\<lambda>bal. bal - undone_debit c t a) (address_balances c a)"
    by (simp add: effect(3) undone_credit_def assms(2))
qed

lemma for_each_rollbackTransaction_no_input_rows:
  assumes "for_each rollbackTransaction c ts = Inr d"
    and "filter (\<lambda>r. i_transaction_id r \<in> set ts) (transaction_inputs c) = []"
  shows "transactions d = filter (\<lambda>r. t_id r \<notin> set ts) (transactions c)
    \<and> transaction_inputs d = transaction_inputs c
    \<and> transaction_outputs d = filter (\<lambda>r. o_transaction_id r \<notin> set ts) (transaction_outputs c)
    \<and> address_balances d a
         = map_option (\<lambda>bal. bal - sum_list (map o_value
               (filter (\<lambda>r. o_transaction_id r \<in> set ts \<and> o_address r = a) (transaction_outputs c))))
             (address_balances c a)"
  using assms
proof (induction ts arbitrary: c)
  case Nil
  then show ?case by (simp add: option.map_ident)
next
  case (Cons t ts)
  from Cons.prems(1) obtain c1 where c1: "rollbackTransaction c t = Inr c1"
    and rest: "for_each rollbackTransaction c1 ts = Inr d"
    using for_each_Cons_Inr [of rollbackTransaction c t ts d] by blast
  from Cons.prems(2) have none: "\<forall>r \<in> set (transaction_inputs c). i_transaction_id r \<noteq> t \<and> i_transaction_id r \<notin> set ts"
    by (simp add: filter_empty_conv)
  then have nt: "filter (\<lambda>r. i_transaction_id r = t) (transaction_inputs c) = []"
    by (simp add: filter_empty_conv)
  note step = rollbackTransaction_no_input_rows(1,2) [OF c1 nt]
    rollbackTransaction_no_input_rows(3) [OF c1 nt, of a]
  note tr1 = rollbackTransaction_effect(2) [OF c1]
  have "filter (\<lambda>r. i_transaction_id r \<in> set ts) (transaction_inputs c1) = []"
    using none by (simp add: step(1) filter_empty_conv)
  note ih = Cons.IH [OF rest this]
  have tr: "transactions d = filter (\<lambda>r. t_id r \<notin> set (t # ts)) (transactions c)"
    using ih by (simp add: tr1 conj_commute)
  have inp: "transaction_inputs d = transaction_inputs c"
    using ih by (simp add: step(1))
  have out: "transaction_outputs d = filter (\<lambda>r. o_transaction_id r \<notin> set (t # ts)) (transaction_outputs c)"
    using ih by (simp add: step(2) conj_commute)
  have sums: "undone_debit c t a
      + sum_list (map o_value (filter (\<lambda>r. o_transaction_id r \<in> set ts \<and> o_address r = a)
          (filter (\<lambda>r. o_transaction_id r \<noteq> t) (transaction_outputs c))))
      = sum_list (map o_value (filter (\<lambda>r. o_transaction_id r \<in> set (t # ts) \<and> o_address r = a)
          (transaction_outputs c)))"
    using sum_list_filter_split [of o_value o_transaction_id t "\<lambda>r. o_address r = a"
        "transaction_outputs c" "set ts"]
    by (simp add: undone_debit_def)
  have bal: "address_balances d a
      = map_option (\<lambda>bal. bal - sum_list (map o_value
            (filter (\<lambda>r. o_transaction_id r \<in> set (t # ts) \<and> o_address r = a) (transaction_outputs c))))
          (address_balances c a)"
  proof (cases "address_balances c a")
    case None
    then show ?thesis using ih by (simp add: step(3))
  next
    case (Some bal)
    have "address_balances d a
        = Some (bal - undone_debit c t a
            - sum_list (map o_value (filter (\<lambda>r. o_transaction_id r \<in> set ts \<and> o_address r = a)
                (filter (\<lambda>r. o_transaction_id r \<noteq> t) (transaction_outputs c)))))"
      using ih Some by (simp add: step(2,3))
    then show ?thesis using sums Some by (simp add: algebra_simps)
  qed
  show ?case using tr inp out bal by blast
qed

lemma output_rows_of_ids:
  "r \<in> set (concat (map output_rows_of txs)) \<Longrightarrow> o_transaction_id r \<in> set (map tx_id txs)"
  by (auto simp: output_rows_of_def output_row_of_def)

lemma blocks_above_single:
  assumes "list_all (\<lambda>r. b_height r \<le> target) rows" and "target < b_height row"
    and "blocks c = rows @ [row]"
  shows "blocks_above c target = [row]"
proof -
  from assms(1) have "filter (\<lambda>r. target < b_height r) rows = []"
    by (auto simp: filter_empty_conv list_all_iff)
  then show ?thesis using assms(2,3) by (simp add: blocks_above_def)
qed

text \<open>Where rollback does undo apply: a block whose transactions have no inputs,
  committed on a store whose foreign keys hold and whose blocks are at or below the
  target.  When \<open>rollbackToHeight\<close> commits, it gives back the four tables as they were
  and, for every address, the balance that \<open>getAddressBalance\<close> returned before the
  block.  (The balance rows that the block created stay, with balance 0.)\<close>

theorem rollback_restores_value_creation:
  assumes applied: "processBlock s b = (None, s')"
    and no_inputs: "list_all (\<lambda>tx. tx_inputs tx = []) (blk_transactions b)"
    and fk: "foreign_keys_hold s"
    and below: "list_all (\<lambda>r. b_height r \<le> target) (blocks s)"
    and above: "target < blk_height b"
    and undone: "rollbackToHeight s' target = (None, r)"
  shows "blocks r = blocks s
    \<and> transactions r = transactions s
    \<and> transaction_inputs r = transaction_inputs s
    \<and> transaction_outputs r = transaction_outputs s
    \<and> getAddressBalance r a = getAddressBalance s a"
proof -
  let ?row = "\<lparr>b_id = blk_id b, b_height = blk_height b\<rparr>"
  let ?txs = "blk_transactions b"
  let ?ts = "map tx_id ?txs"
  let ?N = "concat (map output_rows_of ?txs)"
  let ?c = "s\<lparr>blocks := blocks s @ [?row]\<rparr>"
  from applied have "processBlock_unit s b = Inr s'"
    by (cases "processBlock_unit s b") (simp_all add: processBlock_def)
  then have txs: "processTransactions ?c ?txs (blk_id b) = Inr s'"
    by (auto simp: processBlock_unit_def insert_block_def split: if_splits)
  note rows = processBlock_rows [OF applied]
  note ap = processTransactions_no_inputs [OF txs no_inputs, of a]
  from ap have inputs': "transaction_inputs s' = transaction_inputs s"
    and outputs': "transaction_outputs s' = transaction_outputs s @ ?N"
    and balance': "getAddressBalance s' a = getAddressBalance s a
        + sum_list (map o_value (filter (\<lambda>r. o_address r = a) ?N))"
    and none': "address_balances s' a = None \<longrightarrow> address_balances s a = None"
    and fresh: "set ?ts \<inter> set (map t_id (transactions s)) = {}"
    by (simp_all add: getAddressBalance_def)
  from fk have fk_t: "set (map t_block_id (transactions s)) \<subseteq> set (map b_id (blocks s))"
    and fk_i: "set (map i_transaction_id (transaction_inputs s)) \<subseteq> set (map t_id (transactions s))"
    and fk_o: "set (map o_transaction_id (transaction_outputs s)) \<subseteq> set (map t_id (transactions s))"
    by (simp_all add: foreign_keys_hold_def)
  have fresh': "\<forall>x \<in> set ?txs. tx_id x \<notin> t_id ` set (transactions s)"
    using fresh by (simp add: disjoint_iff image_iff) blast
  have fk_i': "\<forall>r \<in> set (transaction_inputs s). i_transaction_id r \<in> t_id ` set (transactions s)"
    using fk_i by (simp add: image_subset_iff)
  have fk_o': "\<forall>r \<in> set (transaction_outputs s). o_transaction_id r \<in> t_id ` set (transactions s)"
    using fk_o by (simp add: image_subset_iff)
  have old_t: "x \<in> set (transactions s) \<Longrightarrow> t_id x \<notin> set ?ts" for x
    using fresh' by (simp add: image_iff) metis
  have old_i: "x \<in> set (transaction_inputs s) \<Longrightarrow> i_transaction_id x \<notin> set ?ts" for x
    using fresh' fk_i' by (simp add: image_iff) metis
  have old_o: "x \<in> set (transaction_outputs s) \<Longrightarrow> o_transaction_id x \<notin> set ?ts" for x
    using fresh' fk_o' by (simp add: image_iff) metis
  have new_o: "x \<in> set ?N \<Longrightarrow> o_transaction_id x \<in> set ?ts" for x
    by (rule output_rows_of_ids)
  have "blk_id b \<notin> set (map t_block_id (transactions s))"
    using fk_t rows(3) by blast
  then have order: "transactions_of_block s' (blk_id b) = ?ts"
    by (rule transactions_of_block_commit_order [OF applied])
  have above_row: "blocks_above s' target = [?row]"
    using below above rows(1) by (intro blocks_above_single [where rows = "blocks s"]) simp_all
  from undone have unit: "rollbackToHeight_unit s' target = Inr r"
    by (cases "rollbackToHeight_unit s' target") (simp_all add: rollbackToHeight_def)
  then have "rollbackBlock s' ?row = Inr r"
    by (cases "rollbackBlock s' ?row")
       (simp_all add: rollbackToHeight_unit_def above_row split: if_splits)
  then obtain d where d: "for_each rollbackTransaction s' ?ts = Inr d"
    and rb: "r = d\<lparr>blocks := filter (\<lambda>x. b_id x \<noteq> blk_id b) (blocks s')\<rparr>"
    by (cases "for_each rollbackTransaction s' ?ts") (simp_all add: rollbackBlock_steps order)
  have "filter (\<lambda>x. i_transaction_id x \<in> set ?ts) (transaction_inputs s') = []"
    using old_i by (auto simp: inputs' filter_empty_conv)
  note undo = for_each_rollbackTransaction_no_input_rows [OF d this, of a]
  have blocks_eq: "blocks r = blocks s"
  proof -
    have "filter (\<lambda>x. b_id x \<noteq> blk_id b) (blocks s) = blocks s"
      using rows(3) by (intro filter_True) force
    then show ?thesis by (simp add: rb rows(1))
  qed
  have transactions_eq: "transactions r = transactions s"
  proof -
    have "filter (\<lambda>x. t_id x \<notin> set ?ts) (transactions s) = transactions s"
      using old_t by (intro filter_True) blast
    moreover have "filter (\<lambda>x. t_id x \<notin> set ?ts)
        (map (\<lambda>tx. \<lparr>t_id = tx_id tx, t_block_id = blk_id b\<rparr>) ?txs) = []"
      by (auto simp: filter_empty_conv)
    ultimately show ?thesis using undo by (simp add: rb rows(2))
  qed
  have inputs_eq: "transaction_inputs r = transaction_inputs s"
    using undo by (simp add: rb inputs')
  have keep: "filter (\<lambda>x. o_transaction_id x \<notin> set ?ts) (transaction_outputs s) = transaction_outputs s"
    using old_o by (intro filter_True) blast
  have drop: "filter (\<lambda>x. o_transaction_id x \<notin> set ?ts) ?N = []"
    using new_o by (auto simp: filter_empty_conv)
  have outputs_eq: "transaction_outputs r = transaction_outputs s"
    using undo keep drop by (simp add: rb outputs')
  have "filter (\<lambda>x. o_transaction_id x \<in> set ?ts \<and> o_address x = a) (transaction_outputs s) = []"
    using old_o by (auto simp: filter_empty_conv)
  moreover have "filter (\<lambda>x. o_transaction_id x \<in> set ?ts \<and> o_address x = a) ?N
      = filter (\<lambda>x. o_address x = a) ?N"
    using new_o by (intro filter_cong) auto
  ultimately have debit: "sum_list (map o_value
      (filter (\<lambda>x. o_transaction_id x \<in> set ?ts \<and> o_address x = a) (transaction_outputs s')))
      = sum_list (map o_value (filter (\<lambda>x. o_address x = a) ?N))"
    by (simp add: outputs')
  have bal: "address_balances r a
      = map_option (\<lambda>bal. bal - sum_list (map o_value (filter (\<lambda>x. o_address x = a) ?N)))
          (address_balances s' a)"
    using undo debit by (simp add: rb)
  have balance_eq: "getAddressBalance r a = getAddressBalance s a"
  proof (cases "address_balances s' a")
    case None
    with none' have "address_balances s a = None" by simp
    with None bal show ?thesis by (simp add: getAddressBalance_def)
  next
    case (Some x)
    then have "getAddressBalance s' a = x" by (simp add: getAddressBalance_def)
    with balance' Some bal show ?thesis by (simp add: getAddressBalance_def)
  qed
  show ?thesis using blocks_eq transactions_eq inputs_eq outputs_eq balance_eq by blast
qed

theorem rollback_restores_value_creation_witness:
  "processBlock store1 ex_mint_block = (None, snd (processBlock store1 ex_mint_block))
   \<and> foreign_keys_hold store1
   \<and> fst (rollbackToHeight (snd (processBlock store1 ex_mint_block)) 1) = None
   \<and> getAddressBalance (snd (processBlock store1 ex_mint_block)) ''A'' = 107
   \<and> getAddressBalance (snd (rollbackToHeight (snd (processBlock store1 ex_mint_block)) 1)) ''A'' = 100
   \<and> getAddressBalance (snd (rollbackToHeight (snd (processBlock store1 ex_mint_block)) 1)) ''E'' = 0
   \<and> transaction_outputs (snd (rollbackToHeight (snd (processBlock store1 ex_mint_block)) 1))
       = transaction_outputs store1"
proof -
  let ?s' = "snd (processBlock store1 ex_mint_block)"
  let ?r = "snd (rollbackToHeight ?s' 1)"
  have "fst (processBlock store1 ex_mint_block) = None" by code_simp
  then have a: "processBlock store1 ex_mint_block = (None, ?s')" by (simp add: prod_eq_iff)
  have b: "list_all (\<lambda>tx. tx_inputs tx = []) (blk_transactions ex_mint_block)"
    by (simp add: ex_mint_block_def)
  have c: "foreign_keys_hold store1" by code_simp
  have d: "list_all (\<lambda>r. b_height r \<le> 1) (blocks store1)" by code_simp
  have e: "1 < blk_height ex_mint_block" by (simp add: ex_mint_block_def)
  have f: "fst (rollbackToHeight ?s' 1) = None" by code_simp
  then have g: "rollbackToHeight ?s' 1 = (None, ?r)" by (simp add: prod_eq_iff)
  note r = rollback_restores_value_creation [OF a b c d e g]
  have "getAddressBalance store1 ''A'' = 100" and "getAddressBalance store1 ''E'' = 0"
    and "getAddressBalance ?s' ''A'' = 107"
    by code_simp+
  then show ?thesis using a c f r [of "''A''"] r [of "''E''"] by simp
qed

end
